theory Spec2Isabelle
  imports Complex_Main
begin

section \<open>The Rubber Band command-line driver (libs/rubberband/src/main.cpp)\<close>

text \<open>
  The driver \<open>main\<close> parses its options with \<open>getopt_long\<close>, applies the crispness
  preset, opens the two sound files, builds the stretcher's option mask and ratios,
  studies the input (offline mode), processes it, drains the stretcher and prints a
  summary. The stretcher itself (\<open>RubberBandStretcher\<close>), libsndfile and \<open>getopt_long\<close>
  are not part of this file: their answers are inputs of the model.

  Numbers. A C \<open>double\<close> or \<open>float\<close> that holds a ratio is modelled by the real number
  it denotes: rounding, infinities and NaN of option arguments are outside the model.
  Audio samples are modelled with their special values (see \<open>sample\<close>), because the
  driver compares them.
\<close>

subsection \<open>The local variables of main (lines 39-66)\<close>

datatype transients_mode = NoTransients | BandLimitedTransients | Transients

record vars =
  ratio :: real
  pitchshift :: real
  frequencyshift :: real
  debug :: int
  realtime :: bool
  precise :: bool
  threading :: int
  peaklock :: bool
  longwin :: bool
  shortwin :: bool
  softening :: bool
  crispness :: int
  help' :: bool
  quiet :: bool
  haveRatio :: bool
  transients :: transients_mode
  fthresh0 :: real
  fthresh1 :: real
  fthresh2 :: real

definition init_vars :: vars where
  "init_vars =
     \<lparr> ratio = 1, pitchshift = 1, frequencyshift = 1, debug = 0,
       realtime = False, precise = False, threading = 0, peaklock = True,
       longwin = False, shortwin = False, softening = True, crispness = - 1,
       help' = False, quiet = False, haveRatio = False, transients = Transients,
       fthresh0 = - 1, fthresh1 = - 1, fthresh2 = - 1 \<rparr>"

subsection \<open>Option parsing (lines 68-124)\<close>

text \<open>
  One value of \<open>getopt_result\<close> is one return of \<open>getopt_long\<close> other than \<open>-1\<close>:
  the option character, with the option's argument already converted by \<open>atof\<close> or
  \<open>atoi\<close>. \<open>Opt_other\<close> is any character the \<open>switch\<close> has no case for (\<open>'?'\<close> for
  an unknown option or a missing argument).
\<close>

datatype getopt_result =
    Opt_h
  | Opt_t real
  | Opt_T real
  | Opt_p real
  | Opt_f real
  | Opt_d int
  | Opt_R
  | Opt_P
  | Opt_0
  | Opt_at
  | Opt_1
  | Opt_2
  | Opt_3
  | Opt_4
  | Opt_5 real
  | Opt_6 real
  | Opt_7 real
  | Opt_8
  | Opt_9
  | Opt_c int
  | Opt_q
  | Opt_other

text \<open>The body of the \<open>switch (c)\<close>, lines 100-123.\<close>

fun switch_c :: "vars \<Rightarrow> getopt_result \<Rightarrow> vars" where
  "switch_c v Opt_h = v\<lparr>help' := True\<rparr>"
| "switch_c v (Opt_t x) = v\<lparr>ratio := ratio v * x, haveRatio := True\<rparr>"
| "switch_c v (Opt_T m) =
     (if m \<noteq> 0 then v\<lparr>ratio := ratio v / m, haveRatio := True\<rparr>
      else v\<lparr>haveRatio := True\<rparr>)"
| "switch_c v (Opt_p x) = v\<lparr>pitchshift := x, haveRatio := True\<rparr>"
| "switch_c v (Opt_f x) = v\<lparr>frequencyshift := x, haveRatio := True\<rparr>"
| "switch_c v (Opt_d n) = v\<lparr>debug := n\<rparr>"
| "switch_c v Opt_R = v\<lparr>realtime := True\<rparr>"
| "switch_c v Opt_P = v\<lparr>precise := True\<rparr>"
| "switch_c v Opt_0 = v\<lparr>threading := 1\<rparr>"
| "switch_c v Opt_at = v\<lparr>threading := 2\<rparr>"
| "switch_c v Opt_1 = v\<lparr>transients := NoTransients\<rparr>"
| "switch_c v Opt_2 = v\<lparr>peaklock := False\<rparr>"
| "switch_c v Opt_3 = v\<lparr>longwin := True\<rparr>"
| "switch_c v Opt_4 = v\<lparr>shortwin := True\<rparr>"
| "switch_c v (Opt_5 x) = v\<lparr>fthresh0 := x\<rparr>"
| "switch_c v (Opt_6 x) = v\<lparr>fthresh1 := x\<rparr>"
| "switch_c v (Opt_7 x) = v\<lparr>fthresh2 := x\<rparr>"
| "switch_c v Opt_8 = v\<lparr>transients := BandLimitedTransients\<rparr>"
| "switch_c v Opt_9 = v\<lparr>softening := False\<rparr>"
| "switch_c v (Opt_c n) = v\<lparr>crispness := n\<rparr>"
| "switch_c v Opt_q = v\<lparr>quiet := True\<rparr>"
| "switch_c v Opt_other = v\<lparr>help' := True\<rparr>"

text \<open>The \<open>while (1)\<close> loop over the options, in command-line order.\<close>

definition parse_options :: "getopt_result list \<Rightarrow> vars" where
  "parse_options os = foldl switch_c init_vars os"

text \<open>
  The command line as \<open>getopt_long\<close> leaves it: the options it returned, and the
  arguments that are not options (\<open>argv[optind .. argc - 1]\<close>).
\<close>

record cmdline =
  options_given :: "getopt_result list"
  positional :: "string list"

text \<open>The test of line 126; \<open>optind + 2 != argc\<close> counts the positional arguments.\<close>

definition usage_error :: "vars \<Rightarrow> cmdline \<Rightarrow> bool" where
  "usage_error v cl = (help' v \<or> \<not> haveRatio v \<or> length (positional cl) \<noteq> 2)"

subsection \<open>The crispness preset (lines 181-189)\<close>

definition switch_crispness :: "vars \<Rightarrow> vars" where
  "switch_crispness v =
     (if crispness v = - 1 then v\<lparr>crispness := 4\<rparr>
      else if crispness v = 0 then
        v\<lparr>transients := NoTransients, peaklock := False, longwin := True, shortwin := False\<rparr>
      else if crispness v = 1 then
        v\<lparr>transients := NoTransients, peaklock := False, longwin := False, shortwin := False\<rparr>
      else if crispness v = 2 then
        v\<lparr>transients := NoTransients, peaklock := True, longwin := False, shortwin := False\<rparr>
      else if crispness v = 3 then
        v\<lparr>transients := BandLimitedTransients, peaklock := True, longwin := False,
          shortwin := False\<rparr>
      else if crispness v = 4 then
        v\<lparr>transients := Transients, peaklock := True, longwin := False, shortwin := False\<rparr>
      else if crispness v = 5 then
        v\<lparr>transients := Transients, peaklock := False, longwin := False, shortwin := True\<rparr>
      else v)"

subsection \<open>The stretcher's option mask (lines 237-267)\<close>

text \<open>
  Modelled from the spec: the enumerators of \<open>RubberBandStretcher::Option\<close> are declared
  in RubberBandStretcher.h, which is not among the sources, so their bit values are
  unknown. The mask is modelled as the set of the enumerators that the driver has
  or-ed into it; that an enumerator is in the set is that the driver selected it.
  Different enumerators are taken to stand for different selections (the three
  threading modes exclude each other, as the specification's data model has it).
\<close>

datatype Option =
    OptionProcessRealTime
  | OptionStretchPrecise
  | OptionPhaseIndependent
  | OptionPhasePeakLocked
  | OptionWindowLong
  | OptionWindowShort
  | OptionThreadingAuto
  | OptionThreadingNever
  | OptionThreadingAlways
  | OptionTransientsSmooth
  | OptionTransientsMixed
  | OptionTransientsCrisp

type_synonym Options = "Option set"

text \<open>Lines 238-243: one conditional \<open>|=\<close> each.\<close>

definition flag_options :: "vars \<Rightarrow> Options" where
  "flag_options v =
     (if realtime v then {OptionProcessRealTime} else {}) \<union>
     (if precise v then {OptionStretchPrecise} else {}) \<union>
     (if \<not> peaklock v then {OptionPhaseIndependent} else {}) \<union>
     (if \<not> softening v then {OptionPhasePeakLocked} else {}) \<union>
     (if longwin v then {OptionWindowLong} else {}) \<union>
     (if shortwin v then {OptionWindowShort} else {})"

text \<open>Lines 245-255: the \<open>switch (threading)\<close> has no default case.\<close>

definition threading_options :: "vars \<Rightarrow> Options" where
  "threading_options v =
     (if threading v = 0 then {OptionThreadingAuto}
      else if threading v = 1 then {OptionThreadingNever}
      else if threading v = 2 then {OptionThreadingAlways}
      else {})"

text \<open>Lines 257-267.\<close>

fun transients_options :: "transients_mode \<Rightarrow> Options" where
  "transients_options NoTransients = {OptionTransientsSmooth}"
| "transients_options BandLimitedTransients = {OptionTransientsMixed}"
| "transients_options Transients = {OptionTransientsCrisp}"

definition build_options :: "vars \<Rightarrow> Options" where
  "build_options v =
     flag_options v \<union> threading_options v \<union> transients_options (transients v)"

text \<open>
  Lines 269-271: the frequency ratio given to the constructor. \<open>pow(2.0, x)\<close> is
  \<open>2 powr x\<close>.
\<close>

definition final_frequencyshift :: "vars \<Rightarrow> real" where
  "final_frequencyshift v =
     (if pitchshift v \<noteq> 1 then frequencyshift v * 2 powr (pitchshift v / 12)
      else frequencyshift v)"

text \<open>
  The arguments of the constructor call of lines 281-282, for a command line that
  passes the test of line 126 (the sample rate and channel count come from the input
  file).
\<close>

record ctor_args =
  ctor_options :: Options
  ctor_ratio :: real
  ctor_frequencyshift :: real

definition stretcher_args :: "getopt_result list \<Rightarrow> ctor_args" where
  "stretcher_args os =
     (let v = switch_crispness (parse_options os) in
      \<lparr> ctor_options = build_options v, ctor_ratio = ratio v,
        ctor_frequencyshift = final_frequencyshift v \<rparr>)"

subsection \<open>Audio samples and the clamp (lines 373-375 and 430-432)\<close>

text \<open>
  A \<open>float\<close> sample is a finite number, an infinity or a NaN. Only its comparisons with
  the constants \<open>1.f\<close> and \<open>-1.f\<close> are used; as in C, every ordered comparison with
  a NaN is false.
\<close>

datatype sample = Finite real | PlusInf | MinusInf | NaN

fun sample_less :: "sample \<Rightarrow> sample \<Rightarrow> bool" where
  "sample_less NaN _ = False"
| "sample_less _ NaN = False"
| "sample_less (Finite x) (Finite y) = (x < y)"
| "sample_less (Finite x) PlusInf = True"
| "sample_less (Finite x) MinusInf = False"
| "sample_less PlusInf _ = False"
| "sample_less MinusInf MinusInf = False"
| "sample_less MinusInf _ = True"

text \<open>
  \<open>if (value > 1.f) value = 1.f; if (value < -1.f) value = -1.f;\<close>
\<close>

definition clamp_sample :: "sample \<Rightarrow> sample" where
  "clamp_sample v0 =
     (let v1 = (if sample_less (Finite 1) v0 then Finite 1 else v0)
      in if sample_less v1 (Finite (- 1)) then Finite (- 1) else v1)"

text \<open>That a written sample lies in the closed interval from -1.0 to 1.0.\<close>

fun in_unit_range :: "sample \<Rightarrow> bool" where
  "in_unit_range (Finite x) = (- 1 \<le> x \<and> x \<le> 1)"
| "in_unit_range PlusInf = False"
| "in_unit_range MinusInf = False"
| "in_unit_range NaN = False"

text \<open>
  The two nested loops that fill \<open>fobf\<close> (lines 371-378 and 428-435): channel \<open>c\<close>
  outermost, index \<open>i\<close> innermost, one array write each. \<open>obf c i\<close> is \<open>obf[c][i]\<close>.
\<close>

definition fill_channel ::
  "nat \<Rightarrow> nat \<Rightarrow> (nat \<Rightarrow> nat \<Rightarrow> sample) \<Rightarrow> nat \<Rightarrow> sample list \<Rightarrow> sample list" where
  "fill_channel channels avail obf c fobf =
     fold (\<lambda>i buf. buf[i * channels + c := clamp_sample (obf c i)]) [0..<avail] fobf"

definition fill_fobf ::
  "nat \<Rightarrow> nat \<Rightarrow> (nat \<Rightarrow> nat \<Rightarrow> sample) \<Rightarrow> sample list \<Rightarrow> sample list" where
  "fill_fobf channels avail obf fobf =
     fold (fill_channel channels avail obf) [0..<channels] fobf"

text \<open>
  The loops of lines 307-312 and 349-354 copy \<open>fbuf[i * channels + c]\<close> to
  \<open>ibuf[c][i]\<close> for \<open>i < count\<close>; the block is the part of \<open>ibuf\<close> that the stretcher is
  told to read (\<open>count\<close> samples of each channel).
\<close>

definition deinterleave :: "nat \<Rightarrow> int \<Rightarrow> (nat \<Rightarrow> sample) \<Rightarrow> sample list list" where
  "deinterleave channels count fbuf =
     map (\<lambda>c. map (\<lambda>i. fbuf (i * channels + c)) [0..<nat count]) [0..<channels]"

subsection \<open>The world outside the driver\<close>

text \<open>
  What libsndfile and the stretcher answer. \<open>sf_readf_float w s k\<close> is the result of
  the call of that function that follows \<open>s\<close> calls of \<open>sf_seek\<close> and \<open>k\<close> earlier reads
  since the last seek: the returned count and the content of \<open>fbuf\<close>.
  \<open>available w n\<close> is what the call number \<open>n\<close> of \<open>ts.available()\<close> returns (the
  stretcher may work in threads of its own, so the value is not a function of the
  driver's calls), and \<open>retrieved w n c i\<close> is \<open>obf[c][i]\<close> after the call number \<open>n\<close> of
  \<open>ts.retrieve\<close>. \<open>new_float w j\<close> is the indeterminate content at index \<open>j\<close> of a
  freshly allocated \<open>fobf\<close>.
\<close>

record world =
  open_in_ok :: bool
  open_out_ok :: bool
  frames :: int
  channels :: nat
  sf_readf_float :: "nat \<Rightarrow> nat \<Rightarrow> int \<times> (nat \<Rightarrow> sample)"
  available :: "nat \<Rightarrow> int"
  retrieved :: "nat \<Rightarrow> nat \<Rightarrow> nat \<Rightarrow> sample"
  new_float :: "nat \<Rightarrow> sample"

text \<open>
  What the driver does to the outside, in order. The progress and summary lines on
  the standard error stream are not recorded, the usage text and the two error
  messages are.
\<close>

datatype event =
    PrintUsage
  | PrintOpenError bool
  | Construct ctor_args
  | SetExpectedInputDuration int
  | Study "sample list list" int bool
  | Process "sample list list" int bool
  | Retrieve nat
  | Writef "sample list" nat
  | Usleep nat

fun is_study :: "event \<Rightarrow> bool" where
  "is_study (Study _ _ _) = True"
| "is_study _ = False"

fun is_process :: "event \<Rightarrow> bool" where
  "is_process (Process _ _ _) = True"
| "is_process _ = False"

text \<open>The part of the driver's state that the loops change.\<close>

record run =
  trace :: "event list"
  n_available :: nat
  n_retrieve :: nat
  countIn :: int
  countOut :: int

definition ibs :: int where
  "ibs = 1024"

subsection \<open>Pass 1: the study loop (lines 301-327)\<close>

text \<open>
  \<open>frame\<close> is a C \<open>int\<close>; the model counts in unbounded integers, which is the C
  behaviour as long as \<open>frame + ibs\<close> does not overflow, that is for
  \<open>frames < 2^31 - 1024\<close>. \<open>k\<close> is the number of reads since the last seek.
\<close>

function study_loop :: "world \<Rightarrow> int \<Rightarrow> nat \<Rightarrow> event list \<Rightarrow> event list" where
  "study_loop w frame k tr =
     (if frame < frames w then
        (case sf_readf_float w 1 k of (count, fbuf) \<Rightarrow>
           if count \<le> 0 then tr
           else study_loop w (frame + ibs) (Suc k)
                  (tr @ [Study (deinterleave (channels w) count fbuf) count
                           (frame + ibs \<ge> frames w)]))
      else tr)"
  by pat_completeness auto
termination
  by (relation "measure (\<lambda>(w, frame, k, tr). nat (frames w - frame))")
     (auto simp: ibs_def)

subsection \<open>Retrieving and writing one block (lines 363-392 and 420-442)\<close>

definition write_block :: "world \<Rightarrow> nat \<Rightarrow> run \<Rightarrow> run" where
  "write_block w avail st =
     (let fobf0 = map (new_float w) [0..<channels w * avail];
          fobf = fill_fobf (channels w) avail (retrieved w (n_retrieve st)) fobf0
      in st\<lparr> trace := trace st @ [Retrieve avail, Writef fobf avail],
             n_retrieve := Suc (n_retrieve st),
             countOut := countOut st + int avail \<rparr>)"

subsection \<open>Pass 2: the processing loop (lines 341-407)\<close>

text \<open>
  \<open>s\<close> is the number of seeks so far: 1 in real-time mode, 2 after a study pass. As in
  the study loop, \<open>frame\<close> is counted in unbounded integers, which is the C \<open>int\<close> only
  for \<open>frames < 2^31 - 1024\<close>; a statement on how often the loop runs, or that it
  ends, carries that bound.
\<close>

function process_loop :: "world \<Rightarrow> nat \<Rightarrow> int \<Rightarrow> nat \<Rightarrow> run \<Rightarrow> run" where
  "process_loop w s frame k st =
     (if frame < frames w then
        (case sf_readf_float w s k of (count, fbuf) \<Rightarrow>
           if count < 0 then st
           else
             let st1 = st\<lparr> countIn := countIn st + count,
                           trace := trace st @
                             [Process (deinterleave (channels w) count fbuf) count
                                (frame + ibs \<ge> frames w)] \<rparr>;
                 avail = available w (n_available st1);
                 st2 = st1\<lparr> n_available := Suc (n_available st1) \<rparr>;
                 st3 = (if avail > 0 then write_block w (nat avail) st2 else st2)
             in process_loop w s (frame + ibs) (Suc k) st3)
      else st)"
  by pat_completeness auto
termination
  by (relation "measure (\<lambda>(w, s, frame, k, st). nat (frames w - frame))")
     (auto simp: ibs_def)

subsection \<open>The drain loop (lines 414-446)\<close>

text \<open>
  The loop ends only when \<open>ts.available()\<close> returns a negative value; a run in which
  it never does has no result (\<open>None\<close>).
\<close>

definition drain_step :: "world \<Rightarrow> int \<Rightarrow> run \<Rightarrow> run" where
  "drain_step w avail st =
     (if avail > 0 then write_block w (nat avail) st
      else st\<lparr> trace := trace st @ [Usleep 10000] \<rparr>)"

partial_function (option) drain_loop :: "world \<Rightarrow> run \<Rightarrow> run option" where
  "drain_loop w st =
     (if available w (n_available st) \<ge> 0 then
        drain_loop w
          (drain_step w (available w (n_available st))
             (st\<lparr> n_available := Suc (n_available st) \<rparr>))
      else Some (st\<lparr> n_available := Suc (n_available st) \<rparr>))"

subsection \<open>The whole of main\<close>

record outcome =
  exit_code :: int
  events :: "event list"

text \<open>
  Lines 126-232: the usage test, the crispness preset and the two \<open>sf_open\<close> calls.
  The result is the exit code of an early \<open>return\<close> with what was printed, or the
  variables with which the run goes on. The fields of \<open>sfinfoOut\<close> (lines 220-225) are
  data handed to \<open>sf_open\<close>; they decide no branch and are not recorded.
\<close>

definition startup :: "cmdline \<Rightarrow> world \<Rightarrow> outcome + vars" where
  "startup cl w =
     (let v = parse_options (options_given cl) in
      if usage_error v cl then Inl \<lparr> exit_code = 2, events = [PrintUsage] \<rparr>
      else
        let v' = switch_crispness v in
        if \<not> open_in_ok w then Inl \<lparr> exit_code = 1, events = [PrintOpenError False] \<rparr>
        else if \<not> open_out_ok w then Inl \<lparr> exit_code = 1, events = [PrintOpenError True] \<rparr>
        else Inr v')"

text \<open>Lines 237-284: the constructor call and the duration hint.\<close>

definition ctor_events :: "world \<Rightarrow> vars \<Rightarrow> event list" where
  "ctor_events w v =
     [Construct \<lparr> ctor_options = build_options v, ctor_ratio = ratio v,
                  ctor_frequencyshift = final_frequencyshift v \<rparr>,
      SetExpectedInputDuration (frames w)]"

text \<open>Lines 293-334: the study pass, in offline mode only.\<close>

definition study_pass :: "world \<Rightarrow> vars \<Rightarrow> event list \<Rightarrow> event list" where
  "study_pass w v tr = (if \<not> realtime v then study_loop w 0 0 tr else tr)"

text \<open>Lines 336-407, from the state the study pass leaves.\<close>

definition process_pass :: "world \<Rightarrow> vars \<Rightarrow> event list \<Rightarrow> run" where
  "process_pass w v tr =
     process_loop w (if realtime v then 1 else 2) 0 0
       \<lparr> trace = tr, n_available = 0, n_retrieve = 0, countIn = 0, countOut = 0 \<rparr>"

text \<open>The state in which the drain loop is entered.\<close>

definition before_drain :: "world \<Rightarrow> vars \<Rightarrow> run" where
  "before_drain w v = process_pass w v (study_pass w v (ctor_events w v))"

definition main :: "cmdline \<Rightarrow> world \<Rightarrow> outcome option" where
  "main cl w =
     (case startup cl w of
        Inl out \<Rightarrow> Some out
      | Inr v \<Rightarrow>
          (case drain_loop w (before_drain w v) of
             None \<Rightarrow> None
           | Some st \<Rightarrow> Some \<lparr> exit_code = 0, events = trace st \<rparr>))"

section \<open>Definitions for the statements\<close>

subsection \<open>The crispness table of the specification\<close>

text \<open>
  The table of section 6 of the specification, in the specification's words: a
  transient mode, whether peak-locking is on, and a window, for each of the levels
  0 to 5.
\<close>

datatype spec_transient_mode = TM_none | TM_band_limited | TM_full
datatype spec_window = W_short | W_standard | W_long

record spec_row =
  row_transient :: spec_transient_mode
  row_peak_lock :: bool
  row_window :: spec_window

definition spec_crispness_row :: "int \<Rightarrow> spec_row option" where
  "spec_crispness_row n =
     (if n = 0 then Some \<lparr>row_transient = TM_none, row_peak_lock = False, row_window = W_long\<rparr>
      else if n = 1 then Some \<lparr>row_transient = TM_none, row_peak_lock = False, row_window = W_standard\<rparr>
      else if n = 2 then Some \<lparr>row_transient = TM_none, row_peak_lock = True, row_window = W_standard\<rparr>
      else if n = 3 then Some \<lparr>row_transient = TM_band_limited, row_peak_lock = True, row_window = W_standard\<rparr>
      else if n = 4 then Some \<lparr>row_transient = TM_full, row_peak_lock = True, row_window = W_standard\<rparr>
      else if n = 5 then Some \<lparr>row_transient = TM_full, row_peak_lock = False, row_window = W_short\<rparr>
      else None)"

text \<open>
  The driver's variables read as a row of the table. A window is selected only when
  \<open>longwin\<close> and \<open>shortwin\<close> are not both set.
\<close>

fun transient_mode_of :: "transients_mode \<Rightarrow> spec_transient_mode" where
  "transient_mode_of NoTransients = TM_none"
| "transient_mode_of BandLimitedTransients = TM_band_limited"
| "transient_mode_of Transients = TM_full"

definition window_of :: "vars \<Rightarrow> spec_window option" where
  "window_of v =
     (if longwin v then (if shortwin v then None else Some W_long)
      else if shortwin v then Some W_short else Some W_standard)"

definition config_of :: "vars \<Rightarrow> spec_row option" where
  "config_of v =
     (case window_of v of
        None \<Rightarrow> None
      | Some win \<Rightarrow>
          Some \<lparr>row_transient = transient_mode_of (transients v), row_peak_lock = peaklock v,
                row_window = win\<rparr>)"

text \<open>
  The same row in the option mask: the enumerators that the preset decides, and the
  ones among them that a row selects (the driver or-s in no enumerator for peak-locking
  on or for the standard window).
\<close>

definition preset_options :: Options where
  "preset_options =
     {OptionTransientsSmooth, OptionTransientsMixed, OptionTransientsCrisp,
      OptionPhaseIndependent, OptionWindowLong, OptionWindowShort}"

definition row_options :: "spec_row \<Rightarrow> Options" where
  "row_options r =
     (case row_transient r of
        TM_none \<Rightarrow> {OptionTransientsSmooth}
      | TM_band_limited \<Rightarrow> {OptionTransientsMixed}
      | TM_full \<Rightarrow> {OptionTransientsCrisp}) \<union>
     (if row_peak_lock r then {} else {OptionPhaseIndependent}) \<union>
     (case row_window r of
        W_short \<Rightarrow> {OptionWindowShort}
      | W_standard \<Rightarrow> {}
      | W_long \<Rightarrow> {OptionWindowLong})"

text \<open>
  The options \<open>--crisp\<close>/\<open>--crispness\<close>, and the options that set a variable the preset
  also sets.
\<close>

definition is_crispness :: "getopt_result \<Rightarrow> bool" where
  "is_crispness opt = (case opt of Opt_c n \<Rightarrow> True | _ \<Rightarrow> False)"

definition overrides_preset :: "getopt_result \<Rightarrow> bool" where
  "overrides_preset opt =
     (case opt of Opt_1 \<Rightarrow> True | Opt_2 \<Rightarrow> True | Opt_3 \<Rightarrow> True | Opt_4 \<Rightarrow> True
      | Opt_8 \<Rightarrow> True | Opt_c n \<Rightarrow> True | _ \<Rightarrow> False)"

subsection \<open>The time ratio\<close>

text \<open>
  What one option does to the time ratio: \<open>--time X\<close> multiplies it by \<open>X\<close>,
  \<open>--tempo X\<close> divides it by \<open>X\<close> unless \<open>X\<close> is zero, any other option leaves it.
\<close>

fun apply_ratio :: "real \<Rightarrow> getopt_result \<Rightarrow> real" where
  "apply_ratio r (Opt_t x) = r * x"
| "apply_ratio r (Opt_T x) = (if x = 0 then r else r / x)"
| "apply_ratio r _ = r"

fun time_or_tempo :: "getopt_result \<Rightarrow> bool" where
  "time_or_tempo (Opt_t x) = True"
| "time_or_tempo (Opt_T x) = True"
| "time_or_tempo _ = False"

subsection \<open>Accepted command lines\<close>

text \<open>
  The options that the usage text calls the time and pitch ratio options (\<open>--time\<close>,
  \<open>--tempo\<close>, \<open>--pitch\<close>, \<open>--frequency\<close>), and the command lines with one of them, no help
  or unknown option, and exactly two positional arguments.
\<close>

fun ratio_option :: "getopt_result \<Rightarrow> bool" where
  "ratio_option (Opt_t x) = True"
| "ratio_option (Opt_T x) = True"
| "ratio_option (Opt_p x) = True"
| "ratio_option (Opt_f x) = True"
| "ratio_option _ = False"

definition command_line_accepted :: "cmdline \<Rightarrow> bool" where
  "command_line_accepted cl =
     (list_ex ratio_option (options_given cl) \<and> Opt_h \<notin> set (options_given cl) \<and>
      Opt_other \<notin> set (options_given cl) \<and> length (positional cl) = 2)"

subsection \<open>The drain loop, poll by poll\<close>

text \<open>The state after \<open>d\<close> rounds of the drain loop's body, each with a non-negative poll.\<close>

fun drain_steps :: "world \<Rightarrow> nat \<Rightarrow> run \<Rightarrow> run" where
  "drain_steps w 0 st = st"
| "drain_steps w (Suc d) st =
     drain_steps w d
       (drain_step w (available w (n_available st)) (st\<lparr> n_available := Suc (n_available st) \<rparr>))"

fun is_writef :: "event \<Rightarrow> bool" where
  "is_writef (Writef _ _) = True"
| "is_writef _ = False"

text \<open>What the drain loop does after a poll that returned a non-negative \<open>avail\<close>.\<close>

definition poll_action :: "int \<Rightarrow> event" where
  "poll_action avail = (if avail > 0 then Retrieve (nat avail) else Usleep 10000)"

text \<open>
  Modelled from the spec: \<open>RubberBandStretcher::available\<close> is code of the stretcher
  library, which is not among the sources. The specification's terminal convergence
  (section 8) says that, once the input has ended and the output is being drained,
  \<open>available()\<close> eventually returns the terminal sentinel, a negative value. Here: some
  call of \<open>available\<close> from number \<open>n0\<close> on returns a negative value.
\<close>

definition terminal_convergence :: "world \<Rightarrow> nat \<Rightarrow> bool" where
  "terminal_convergence w n0 = (\<exists>n\<ge>n0. available w n < 0)"

subsection \<open>Written blocks\<close>

text \<open>The interleaved block of the clamped samples: frame by frame, channel by channel.\<close>

definition interleave_clamped :: "nat \<Rightarrow> nat \<Rightarrow> (nat \<Rightarrow> nat \<Rightarrow> sample) \<Rightarrow> sample list" where
  "interleave_clamped ch avail obf =
     map (\<lambda>j. clamp_sample (obf (j mod ch) (j div ch))) [0..<ch * avail]"

text \<open>The calls that the study loop adds to the trace, as a list of their own.\<close>

function study_events :: "world \<Rightarrow> int \<Rightarrow> nat \<Rightarrow> event list" where
  "study_events w frame k =
     (if frame < frames w then
        (case sf_readf_float w 1 k of (count, fbuf) \<Rightarrow>
           if count \<le> 0 then []
           else Study (deinterleave (channels w) count fbuf) count (frame + ibs \<ge> frames w)
                # study_events w (frame + ibs) (Suc k))
      else [])"
  by pat_completeness auto
termination
  by (relation "measure (\<lambda>(w, frame, k). nat (frames w - frame))")
     (auto simp: ibs_def)

text \<open>
  A written block holds, at index \<open>i * channels + c\<close>, the clamped sample \<open>i\<close> of channel
  \<open>c\<close> of one retrieved block. Events other than a write satisfy it.
\<close>

definition written_clamped :: "world \<Rightarrow> event \<Rightarrow> bool" where
  "written_clamped w e =
     (case e of
        Writef fobf a \<Rightarrow>
          length fobf = channels w * a \<and>
          (\<exists>k. \<forall>c<channels w. \<forall>i<a.
             fobf ! (i * channels w + c) = clamp_sample (retrieved w k c i))
      | _ \<Rightarrow> True)"

text \<open>
  The frames a study call passes, the number of blocks of a file, and the calls of a
  study pass over a file whose reads deliver what the header announces: full blocks
  of \<open>ibs\<close> frames and a last, shorter one.
\<close>

fun study_count :: "event \<Rightarrow> int" where
  "study_count (Study b count final) = count"
| "study_count _ = 0"

definition nblocks :: "world \<Rightarrow> nat" where
  "nblocks w = nat ((frames w + ibs - 1) div ibs)"

definition reads_deliver :: "world \<Rightarrow> bool" where
  "reads_deliver w =
     (0 \<le> frames w \<and> frames w < 2 ^ 31 - 1024 \<and>
      (\<forall>k. int k * ibs < frames w \<longrightarrow>
         fst (sf_readf_float w 1 k) = min ibs (frames w - int k * ibs)))"

definition study_call :: "world \<Rightarrow> nat \<Rightarrow> event" where
  "study_call w k =
     Study (deinterleave (channels w) (fst (sf_readf_float w 1 k)) (snd (sf_readf_float w 1 k)))
       (min ibs (frames w - int k * ibs)) (Suc k = nblocks w)"

subsection \<open>Concrete runs\<close>

text \<open>
  A stereo file of three frames, and a stretcher that has nothing after the only
  \<open>process\<close> call, one frame at the first poll of the drain loop (samples 2 and -3),
  nothing at the second, and the sentinel at the third. \<open>nan_world\<close> is the same with
  NaN samples.
\<close>

definition example_world :: world where
  "example_world =
     \<lparr> open_in_ok = True, open_out_ok = True, frames = 3, channels = 2,
       sf_readf_float = (\<lambda>s k. (if k = 0 then 3 else 0, \<lambda>j. Finite (real j / 4))),
       available = (\<lambda>n. if n = 0 then 0 else if n = 1 then 1 else if n = 2 then 0 else - 1),
       retrieved = (\<lambda>n c i. if c = 0 then Finite 2 else Finite (- 3)),
       new_float = (\<lambda>j. Finite 0) \<rparr>"

definition nan_world :: world where
  "nan_world = example_world\<lparr> retrieved := (\<lambda>n c i. NaN) \<rparr>"

definition no_ratio_cmdline :: cmdline where
  "no_ratio_cmdline = \<lparr> options_given = [Opt_q, Opt_R], positional = [''in.wav'', ''out.wav''] \<rparr>"

definition tempo_zero_cmdline :: cmdline where
  "tempo_zero_cmdline = \<lparr> options_given = [Opt_T 0], positional = [''in.wav'', ''out.wav''] \<rparr>"

definition example_cmdline :: cmdline where
  "example_cmdline = \<lparr> options_given = [Opt_t 2], positional = [''in.wav'', ''out.wav''] \<rparr>"

definition example_vars :: vars where
  "example_vars = init_vars\<lparr> ratio := 2, haveRatio := True, crispness := 4 \<rparr>"

definition example_block :: "sample list list" where
  "example_block =
     [[Finite 0, Finite (1 / 2), Finite 1], [Finite (1 / 4), Finite (3 / 4), Finite (5 / 4)]]"

definition example_ctor :: "event list" where
  "example_ctor =
     [Construct \<lparr> ctor_options = {OptionThreadingAuto, OptionTransientsCrisp}, ctor_ratio = 2,
                  ctor_frequencyshift = 1 \<rparr>,
      SetExpectedInputDuration 3]"

section \<open>Properties\<close>

text \<open>The loops are unfolded one round at a time, where a proof says so.\<close>

declare study_loop.simps [simp del] process_loop.simps [simp del] study_events.simps [simp del]

subsection \<open>Option parsing and the crispness preset\<close>

lemma parse_options_append:
  "parse_options (xs @ ys) = foldl switch_c (parse_options xs) ys"
  by (simp add: parse_options_def)

lemma crispness_switch_c:
  "\<not> is_crispness opt \<Longrightarrow> crispness (switch_c v opt) = crispness v"
  by (cases opt) (simp_all add: is_crispness_def)

lemma crispness_foldl:
  "list_all (\<lambda>opt. \<not> is_crispness opt) os \<Longrightarrow> crispness (foldl switch_c v os) = crispness v"
  by (induction os arbitrary: v) (simp_all add: crispness_switch_c)

lemma crispness_last_given:
  "list_all (\<lambda>opt. \<not> is_crispness opt) post \<Longrightarrow>
   crispness (parse_options (pre @ Opt_c n # post)) = n"
  by (simp add: parse_options_append crispness_foldl)

lemma crispness_not_given:
  "list_all (\<lambda>opt. \<not> is_crispness opt) os \<Longrightarrow> crispness (parse_options os) = - 1"
  by (simp add: parse_options_def crispness_foldl init_vars_def)

lemma config_of_preset:
  "0 \<le> crispness v \<Longrightarrow> crispness v \<le> 5 \<Longrightarrow>
   config_of (switch_crispness v) = spec_crispness_row (crispness v)"
  by (simp add: switch_crispness_def config_of_def window_of_def spec_crispness_row_def)

lemma options_of_preset:
  "0 \<le> crispness v \<Longrightarrow> crispness v \<le> 5 \<Longrightarrow>
   spec_crispness_row (crispness v) = Some r \<Longrightarrow>
   build_options (switch_crispness v) \<inter> preset_options = row_options r"
  apply (simp add: switch_crispness_def spec_crispness_row_def split: if_splits)
  apply (auto simp: build_options_def flag_options_def threading_options_def preset_options_def row_options_def split: if_splits)
  done

lemma parse_options_snoc:
  "parse_options (os @ [opt]) = switch_c (parse_options os) opt"
  by (simp add: parse_options_def)

lemma config_of_switch_c:
  "\<not> overrides_preset opt \<Longrightarrow> config_of (switch_c v opt) = config_of v"
  by (cases opt) (simp_all add: overrides_preset_def config_of_def window_of_def)

lemma config_of_foldl:
  "list_all (\<lambda>opt. \<not> overrides_preset opt) os \<Longrightarrow>
   config_of (foldl switch_c v os) = config_of v"
  by (induction os arbitrary: v) (simp_all add: config_of_switch_c)

lemma config_of_default:
  "crispness v = - 1 \<Longrightarrow> config_of (switch_crispness v) = config_of v"
  by (simp add: switch_crispness_def config_of_def window_of_def)

lemma not_overrides_not_crispness:
  "list_all (\<lambda>opt. \<not> overrides_preset opt) os \<Longrightarrow> list_all (\<lambda>opt. \<not> is_crispness opt) os"
  by (induction os) (auto simp: overrides_preset_def is_crispness_def split: getopt_result.splits)

lemma stretcher_args_simps:
  "ctor_options (stretcher_args os) = build_options (switch_crispness (parse_options os))"
  "ctor_ratio (stretcher_args os) = ratio (switch_crispness (parse_options os))"
  "ctor_frequencyshift (stretcher_args os) =
     final_frequencyshift (switch_crispness (parse_options os))"
  by (simp_all add: stretcher_args_def Let_def)

text \<open>
  Claim C1. When the last \<open>--crispness\<close> (or \<open>--crisp\<close>) option on the command line gives a
  level \<open>N\<close> from 0 to 5, the variables after the preset are the row \<open>N\<close> of the table of
  section 6 (0: none, off, long; 1: none, off, standard; 2: none, on, standard;
  3: band-limited, on, standard; 4: full, on, standard; 5: full, off, short), whatever
  the other options are, and the option mask given to the stretcher selects exactly
  that row among the enumerators the preset decides. When no crispness option is
  given, the level becomes 4, and without an option that sets one of the preset's
  variables the configuration is row 4.
\<close>

theorem crispness_preset_table:
  "(list_all (\<lambda>opt. \<not> is_crispness opt) post \<and> 0 \<le> N \<and> N \<le> 5 \<longrightarrow>
      config_of (switch_crispness (parse_options (pre @ Opt_c N # post))) = spec_crispness_row N \<and>
      Some (ctor_options (stretcher_args (pre @ Opt_c N # post)) \<inter> preset_options) =
        map_option row_options (spec_crispness_row N)) \<and>
   (list_all (\<lambda>opt. \<not> is_crispness opt) os \<longrightarrow>
      crispness (switch_crispness (parse_options os)) = 4) \<and>
   (list_all (\<lambda>opt. \<not> overrides_preset opt) os' \<longrightarrow>
      config_of (switch_crispness (parse_options os')) = spec_crispness_row 4)"
proof (intro conjI impI)
  assume h: "list_all (\<lambda>opt. \<not> is_crispness opt) post \<and> 0 \<le> N \<and> N \<le> 5"
  let ?v = "parse_options (pre @ Opt_c N # post)"
  from h have c: "crispness ?v = N"
    by (simp add: crispness_last_given)
  with h show "config_of (switch_crispness ?v) = spec_crispness_row N"
    using config_of_preset [of ?v] by simp
  from h have "N = 0 \<or> N = 1 \<or> N = 2 \<or> N = 3 \<or> N = 4 \<or> N = 5"
    by arith
  then obtain r where r: "spec_crispness_row N = Some r"
    by (auto simp: spec_crispness_row_def)
  with h c have "build_options (switch_crispness ?v) \<inter> preset_options = row_options r"
    using options_of_preset [of ?v r] by simp
  with r show "Some (ctor_options (stretcher_args (pre @ Opt_c N # post)) \<inter> preset_options) =
      map_option row_options (spec_crispness_row N)"
    by (simp add: stretcher_args_simps)
next
  assume "list_all (\<lambda>opt. \<not> is_crispness opt) os"
  then have "crispness (parse_options os) = - 1"
    by (rule crispness_not_given)
  then show "crispness (switch_crispness (parse_options os)) = 4"
    by (simp add: switch_crispness_def)
next
  assume h: "list_all (\<lambda>opt. \<not> overrides_preset opt) os'"
  then have "crispness (parse_options os') = - 1"
    by (simp add: crispness_not_given not_overrides_not_crispness)
  then have "config_of (switch_crispness (parse_options os')) = config_of (parse_options os')"
    by (rule config_of_default)
  also from h have "\<dots> = config_of init_vars"
    by (simp add: parse_options_def config_of_foldl)
  also have "\<dots> = spec_crispness_row 4"
    by (simp add: init_vars_def config_of_def window_of_def spec_crispness_row_def)
  finally show "config_of (switch_crispness (parse_options os')) = spec_crispness_row 4" .
qed

text \<open>
  \<open>--time 2 --bl-transients --crispness 0 --window-long\<close> gives row 0;
  \<open>--time 2 --no-transients\<close> has level 4; \<open>--time 2 --realtime\<close> gives row 4.
\<close>

theorem crispness_preset_table_witness:
  "list_all (\<lambda>opt. \<not> is_crispness opt) [Opt_3] \<and> (0::int) \<le> 0 \<and> (0::int) \<le> 5 \<and>
   config_of (switch_crispness (parse_options ([Opt_t 2, Opt_8] @ Opt_c 0 # [Opt_3]))) =
     Some \<lparr>row_transient = TM_none, row_peak_lock = False, row_window = W_long\<rparr> \<and>
   ctor_options (stretcher_args ([Opt_t 2, Opt_8] @ Opt_c 0 # [Opt_3])) \<inter> preset_options =
     {OptionTransientsSmooth, OptionPhaseIndependent, OptionWindowLong} \<and>
   list_all (\<lambda>opt. \<not> is_crispness opt) [Opt_t 2, Opt_1] \<and>
   crispness (switch_crispness (parse_options [Opt_t 2, Opt_1])) = 4 \<and>
   list_all (\<lambda>opt. \<not> overrides_preset opt) [Opt_t 2, Opt_R] \<and>
   config_of (switch_crispness (parse_options [Opt_t 2, Opt_R])) =
     Some \<lparr>row_transient = TM_full, row_peak_lock = True, row_window = W_standard\<rparr>"
proof -
  have h1: "list_all (\<lambda>opt. \<not> is_crispness opt) [Opt_3] \<and> (0::int) \<le> 0 \<and> (0::int) \<le> 5"
    by (simp add: is_crispness_def)
  have h2: "list_all (\<lambda>opt. \<not> is_crispness opt) [Opt_t 2, Opt_1]"
    by (simp add: is_crispness_def)
  have h3: "list_all (\<lambda>opt. \<not> overrides_preset opt) [Opt_t 2, Opt_R]"
    by (simp add: overrides_preset_def)
  have r0: "spec_crispness_row 0 =
      Some \<lparr>row_transient = TM_none, row_peak_lock = False, row_window = W_long\<rparr>"
    by (simp add: spec_crispness_row_def)
  have r4: "spec_crispness_row 4 =
      Some \<lparr>row_transient = TM_full, row_peak_lock = True, row_window = W_standard\<rparr>"
    by (simp add: spec_crispness_row_def)
  have ro: "row_options \<lparr>row_transient = TM_none, row_peak_lock = False, row_window = W_long\<rparr> =
      {OptionTransientsSmooth, OptionPhaseIndependent, OptionWindowLong}"
    by (auto simp: row_options_def)
  from crispness_preset_table
    [of "[Opt_3]" 0 "[Opt_t 2, Opt_8]" "[Opt_t 2, Opt_1]" "[Opt_t 2, Opt_R]"] h1 h2 h3
  show ?thesis
    by (simp add: r0 r4 ro)
qed

subsection \<open>Real-time mode and the option mask\<close>

lemma realtime_parse: "realtime (parse_options os) = (Opt_R \<in> set os)"
proof (induction os rule: rev_induct)
  case Nil
  show ?case by (simp add: parse_options_def init_vars_def)
next
  case (snoc opt os)
  then show ?case by (cases opt) (simp_all add: parse_options_snoc)
qed

lemma precise_parse: "precise (parse_options os) = (Opt_P \<in> set os)"
proof (induction os rule: rev_induct)
  case Nil
  show ?case by (simp add: parse_options_def init_vars_def)
next
  case (snoc opt os)
  then show ?case by (cases opt) (simp_all add: parse_options_snoc)
qed

lemma threading_parse:
  "Opt_0 \<notin> set os \<Longrightarrow> Opt_at \<notin> set os \<Longrightarrow> threading (parse_options os) = 0"
proof (induction os rule: rev_induct)
  case Nil
  show ?case by (simp add: parse_options_def init_vars_def)
next
  case (snoc opt os)
  then show ?case by (cases opt) (simp_all add: parse_options_snoc)
qed

lemma switch_crispness_keeps:
  "realtime (switch_crispness v) = realtime v"
  "precise (switch_crispness v) = precise v"
  "threading (switch_crispness v) = threading v"
  "ratio (switch_crispness v) = ratio v"
  "pitchshift (switch_crispness v) = pitchshift v"
  "frequencyshift (switch_crispness v) = frequencyshift v"
  "haveRatio (switch_crispness v) = haveRatio v"
  "help' (switch_crispness v) = help' v"
  by (simp_all add: switch_crispness_def)

lemma build_options_threading:
  "threading v = 0 \<Longrightarrow>
   OptionThreadingAuto \<in> build_options v \<and> OptionThreadingNever \<notin> build_options v \<and>
   OptionThreadingAlways \<notin> build_options v"
  by (cases "transients v")
     (simp_all add: build_options_def flag_options_def threading_options_def)

lemma build_options_flags:
  "(OptionProcessRealTime \<in> build_options v) = realtime v"
  "(OptionStretchPrecise \<in> build_options v) = precise v"
  by (cases "transients v";
      simp add: build_options_def flag_options_def threading_options_def)+

text \<open>
  Claim C2, as stated: with \<open>--realtime\<close> and neither \<open>--no-threads\<close> nor \<open>--threads\<close>,
  the option mask the driver constructs selects threading never and precise
  stretching. It does not: for \<open>--realtime --time 2\<close> the mask holds neither
  \<open>OptionThreadingNever\<close> nor \<open>OptionStretchPrecise\<close>.
\<close>

theorem realtime_options_counterexample:
  "Opt_R \<in> set [Opt_R, Opt_t 2] \<and> Opt_0 \<notin> set [Opt_R, Opt_t 2] \<and>
   Opt_at \<notin> set [Opt_R, Opt_t 2] \<and>
   OptionThreadingNever \<notin> ctor_options (stretcher_args [Opt_R, Opt_t 2]) \<and>
   OptionStretchPrecise \<notin> ctor_options (stretcher_args [Opt_R, Opt_t 2])"
  by (simp add: stretcher_args_simps parse_options_def init_vars_def switch_crispness_def
      build_options_def flag_options_def threading_options_def)

text \<open>
  Claim C2, amended. With \<open>--realtime\<close> and neither \<open>--no-threads\<close> nor \<open>--threads\<close>, the
  option mask the driver constructs holds \<open>OptionProcessRealTime\<close> and
  \<open>OptionThreadingAuto\<close>, holds neither \<open>OptionThreadingNever\<close> nor
  \<open>OptionThreadingAlways\<close>, and holds \<open>OptionStretchPrecise\<close> exactly when \<open>--precise\<close> is
  given. The driver forces neither setting; what real-time mode implies is left to the
  stretcher's constructor.
\<close>

theorem realtime_options:
  assumes "Opt_R \<in> set os" and "Opt_0 \<notin> set os" and "Opt_at \<notin> set os"
  shows "OptionProcessRealTime \<in> ctor_options (stretcher_args os) \<and>
         OptionThreadingAuto \<in> ctor_options (stretcher_args os) \<and>
         OptionThreadingNever \<notin> ctor_options (stretcher_args os) \<and>
         OptionThreadingAlways \<notin> ctor_options (stretcher_args os) \<and>
         (OptionStretchPrecise \<in> ctor_options (stretcher_args os)) = (Opt_P \<in> set os)"
proof -
  let ?v = "switch_crispness (parse_options os)"
  from assms have "threading ?v = 0"
    by (simp add: switch_crispness_keeps threading_parse)
  then have "OptionThreadingAuto \<in> build_options ?v \<and> OptionThreadingNever \<notin> build_options ?v \<and>
      OptionThreadingAlways \<notin> build_options ?v"
    by (rule build_options_threading)
  moreover from assms have "OptionProcessRealTime \<in> build_options ?v"
    by (simp add: build_options_flags switch_crispness_keeps realtime_parse)
  moreover have "(OptionStretchPrecise \<in> build_options ?v) = (Opt_P \<in> set os)"
    by (simp add: build_options_flags switch_crispness_keeps precise_parse)
  ultimately show ?thesis
    by (simp add: stretcher_args_simps)
qed

theorem realtime_options_witness:
  "Opt_R \<in> set [Opt_R, Opt_t 2] \<and> Opt_0 \<notin> set [Opt_R, Opt_t 2] \<and>
   Opt_at \<notin> set [Opt_R, Opt_t 2] \<and>
   OptionProcessRealTime \<in> ctor_options (stretcher_args [Opt_R, Opt_t 2]) \<and>
   OptionThreadingAuto \<in> ctor_options (stretcher_args [Opt_R, Opt_t 2]) \<and>
   OptionThreadingNever \<notin> ctor_options (stretcher_args [Opt_R, Opt_t 2]) \<and>
   OptionThreadingAlways \<notin> ctor_options (stretcher_args [Opt_R, Opt_t 2]) \<and>
   OptionStretchPrecise \<notin> ctor_options (stretcher_args [Opt_R, Opt_t 2])"
proof -
  have h: "Opt_R \<in> set [Opt_R, Opt_t 2]" "Opt_0 \<notin> set [Opt_R, Opt_t 2]"
    "Opt_at \<notin> set [Opt_R, Opt_t 2]"
    by simp_all
  from realtime_options [OF h] h show ?thesis
    by simp
qed

subsection \<open>The frequency ratio\<close>

lemma two_powr_twelfth: "(2::real) powr (1 / 12) \<noteq> 1"
  by simp

text \<open>
  Claim C3 says that for every semitone value \<open>p\<close> given with \<open>--pitch\<close> the frequency
  ratio passed to the constructor is the \<open>--frequency\<close> value (1 when absent) times
  \<open>2 powr (p / 12)\<close>. The variable \<open>pitchshift\<close> starts at 1.0 and line 269 skips the
  conversion when it is 1.0, so \<open>--pitch 1\<close> is taken for no pitch option: the ratio
  passed is 1, not \<open>2 powr (1 / 12)\<close>.
\<close>

theorem pitch_one_semitone:
  "ctor_frequencyshift (stretcher_args [Opt_p 1]) = 1 \<and>
   ctor_frequencyshift (stretcher_args [Opt_p 1]) \<noteq> 1 * 2 powr (1 / 12)"
  using two_powr_twelfth
  by (simp add: stretcher_args_simps parse_options_def init_vars_def switch_crispness_def
      final_frequencyshift_def)

text \<open>For every other value the conversion is applied.\<close>

lemma pitch_other_semitones:
  "pitchshift v \<noteq> 1 \<Longrightarrow>
   final_frequencyshift v = frequencyshift v * 2 powr (pitchshift v / 12)"
  by (simp add: final_frequencyshift_def)

subsection \<open>The time ratio\<close>

lemma ratio_switch_c: "ratio (switch_c v opt) = apply_ratio (ratio v) opt"
  by (cases opt) simp_all

lemma ratio_foldl: "ratio (foldl switch_c v os) = foldl apply_ratio (ratio v) os"
  by (induction os arbitrary: v) (simp_all add: ratio_switch_c)

lemma haveRatio_switch_c:
  "haveRatio v \<or> time_or_tempo opt \<Longrightarrow> haveRatio (switch_c v opt)"
  by (cases opt) auto

lemma haveRatio_foldl:
  "haveRatio v \<or> list_ex time_or_tempo os \<Longrightarrow> haveRatio (foldl switch_c v os)"
proof (induction os arbitrary: v)
  case Nil
  then show ?case by simp
next
  case (Cons opt os)
  show ?case
  proof (cases "haveRatio v \<or> time_or_tempo opt")
    case True
    then have "haveRatio (switch_c v opt)" by (rule haveRatio_switch_c)
    with Cons.IH show ?thesis by simp
  next
    case False
    with Cons.prems have "list_ex time_or_tempo os" by simp
    with Cons.IH show ?thesis by simp
  qed
qed

text \<open>
  Claim C5, as stated: each \<open>--tempo X\<close> divides the accumulated time ratio by \<open>X\<close>. For
  \<open>X = 0\<close> the driver leaves the ratio as it is: after \<open>--tempo 0\<close> alone the ratio is
  still 1, which is no quotient of 1 by 0 (no number times 0 is 1, and it is not the
  value that HOL gives to \<open>1 / 0\<close> either).
\<close>

theorem tempo_zero_counterexample:
  "ratio (switch_c init_vars (Opt_T 0)) = 1 \<and>
   ratio (switch_c init_vars (Opt_T 0)) \<noteq> ratio init_vars / 0 \<and>
   ratio (switch_c init_vars (Opt_T 0)) * 0 \<noteq> ratio init_vars"
  by (simp add: init_vars_def)

text \<open>
  Claim C5, amended. Each \<open>--time X\<close> multiplies the accumulated time ratio (1 at the
  start) by \<open>X\<close>; each \<open>--tempo X\<close> with \<open>X\<close> other than zero divides it by \<open>X\<close>, and
  \<open>--tempo 0\<close> leaves it unchanged; no other option changes it. Every occurrence of
  either option sets \<open>haveRatio\<close>.
\<close>

theorem time_tempo_ratio:
  "ratio (parse_options os) = foldl apply_ratio 1 os \<and>
   ratio (switch_c v (Opt_t x)) = ratio v * x \<and>
   ratio (switch_c v (Opt_T x)) = (if x = 0 then ratio v else ratio v / x) \<and>
   (list_ex time_or_tempo os \<longrightarrow> haveRatio (parse_options os))"
  by (simp add: parse_options_def ratio_foldl haveRatio_foldl init_vars_def)

theorem time_tempo_ratio_witness:
  "ratio (parse_options [Opt_t 3, Opt_T 0, Opt_T 2]) = 3 / 2 \<and>
   list_ex time_or_tempo [Opt_t 3, Opt_T 0, Opt_T 2] \<and>
   haveRatio (parse_options [Opt_t 3, Opt_T 0, Opt_T 2])"
  using time_tempo_ratio [of "[Opt_t 3, Opt_T 0, Opt_T 2]" init_vars 1]
  by simp

subsection \<open>Filling the output block\<close>

lemma index_split:
  fixes c :: nat
  assumes "c < ch"
  shows "(i * ch + c = j) = (j mod ch = c \<and> j div ch = i)"
  using assms by auto

lemma fill_channel_upto:
  assumes "c < ch"
  shows "length (fold (\<lambda>i buf. buf[i * ch + c := clamp_sample (obf c i)]) [0..<n] fobf)
           = length fobf \<and>
         (\<forall>j<length fobf.
            fold (\<lambda>i buf. buf[i * ch + c := clamp_sample (obf c i)]) [0..<n] fobf ! j =
              (if j mod ch = c \<and> j div ch < n
               then clamp_sample (obf c (j div ch)) else fobf ! j))"
proof (induction n)
  case 0
  show ?case by simp
next
  case (Suc n)
  let ?f = "\<lambda>i buf. buf[i * ch + c := clamp_sample (obf c i)]"
  let ?b = "fold ?f [0..<n] fobf"
  have step: "fold ?f [0..<Suc n] fobf = ?b[n * ch + c := clamp_sample (obf c n)]"
    by simp
  from Suc.IH have len: "length ?b = length fobf" by simp
  show ?case
  proof (intro conjI allI impI)
    from len show "length (fold ?f [0..<Suc n] fobf) = length fobf"
      by (simp del: upt_Suc add: step)
  next
    fix j assume j: "j < length fobf"
    show "fold ?f [0..<Suc n] fobf ! j =
        (if j mod ch = c \<and> j div ch < Suc n
         then clamp_sample (obf c (j div ch)) else fobf ! j)"
    proof (cases "n * ch + c = j")
      case True
      with assms have "j mod ch = c" "j div ch = n"
        by (simp_all add: index_split)
      with True j len show ?thesis
        by (simp del: upt_Suc add: step)
    next
      case False
      with assms have ne: "\<not> (j mod ch = c \<and> j div ch = n)"
        by (simp add: index_split)
      from False have "fold ?f [0..<Suc n] fobf ! j = ?b ! j"
        by (simp del: upt_Suc add: step)
      also from Suc.IH j have "\<dots> =
          (if j mod ch = c \<and> j div ch < n
           then clamp_sample (obf c (j div ch)) else fobf ! j)"
        by simp
      also from ne have "\<dots> =
          (if j mod ch = c \<and> j div ch < Suc n
           then clamp_sample (obf c (j div ch)) else fobf ! j)"
        by (auto simp: less_Suc_eq)
      finally show ?thesis .
    qed
  qed
qed

lemma fill_channel_nth:
  assumes "c < ch" and "length fobf = ch * avail"
  shows "length (fill_channel ch avail obf c fobf) = ch * avail"
    and "j < ch * avail \<Longrightarrow>
         fill_channel ch avail obf c fobf ! j =
           (if j mod ch = c then clamp_sample (obf c (j div ch)) else fobf ! j)"
proof -
  from assms show "length (fill_channel ch avail obf c fobf) = ch * avail"
    using fill_channel_upto [of c ch obf avail fobf] by (simp add: fill_channel_def)
  assume j: "j < ch * avail"
  then have "j div ch < avail"
    by (simp add: less_mult_imp_div_less mult.commute)
  with assms j show "fill_channel ch avail obf c fobf ! j =
           (if j mod ch = c then clamp_sample (obf c (j div ch)) else fobf ! j)"
    using fill_channel_upto [of c ch obf avail fobf] by (simp add: fill_channel_def)
qed

lemma fill_fobf_upto:
  assumes "length fobf = ch * avail"
  shows "m \<le> ch \<Longrightarrow>
         length (fold (fill_channel ch avail obf) [0..<m] fobf) = ch * avail \<and>
         (\<forall>j<ch * avail.
            fold (fill_channel ch avail obf) [0..<m] fobf ! j =
              (if j mod ch < m
               then clamp_sample (obf (j mod ch) (j div ch)) else fobf ! j))"
proof (induction m)
  case 0
  from assms show ?case by simp
next
  case (Suc m)
  let ?b = "fold (fill_channel ch avail obf) [0..<m] fobf"
  from Suc have IH: "length ?b = ch * avail"
      "\<forall>j<ch * avail. ?b ! j =
         (if j mod ch < m
          then clamp_sample (obf (j mod ch) (j div ch)) else fobf ! j)"
    by simp_all
  from Suc.prems have m: "m < ch" by simp
  have step: "fold (fill_channel ch avail obf) [0..<Suc m] fobf =
      fill_channel ch avail obf m ?b"
    by simp
  show ?case
  proof (intro conjI allI impI)
    from m IH(1) show "length (fold (fill_channel ch avail obf) [0..<Suc m] fobf) =
        ch * avail"
      by (simp del: upt_Suc add: step fill_channel_nth(1))
  next
    fix j assume j: "j < ch * avail"
    with m IH(1) have "fill_channel ch avail obf m ?b ! j =
        (if j mod ch = m then clamp_sample (obf m (j div ch)) else ?b ! j)"
      by (rule fill_channel_nth(2))
    with IH(2) j show "fold (fill_channel ch avail obf) [0..<Suc m] fobf ! j =
        (if j mod ch < Suc m
         then clamp_sample (obf (j mod ch) (j div ch)) else fobf ! j)"
      by (auto simp del: upt_Suc simp add: step less_Suc_eq)
  qed
qed

lemma fill_fobf_interleave:
  assumes "length fobf = ch * avail"
  shows "fill_fobf ch avail obf fobf = interleave_clamped ch avail obf"
proof (rule nth_equalityI)
  from assms show "length (fill_fobf ch avail obf fobf) =
      length (interleave_clamped ch avail obf)"
    using fill_fobf_upto [of fobf ch avail ch obf]
    by (simp add: fill_fobf_def interleave_clamped_def)
next
  fix j assume "j < length (fill_fobf ch avail obf fobf)"
  with assms have j: "j < ch * avail"
    using fill_fobf_upto [of fobf ch avail ch obf]
    by (simp add: fill_fobf_def)
  then have "0 < ch" by (cases ch) simp_all
  then have "j mod ch < ch" by simp
  with assms j show "fill_fobf ch avail obf fobf ! j =
      interleave_clamped ch avail obf ! j"
    using fill_fobf_upto [of fobf ch avail ch obf]
    by (simp add: fill_fobf_def interleave_clamped_def)
qed

lemma clamp_sample_cases:
  "clamp_sample NaN = NaN"
  "clamp_sample PlusInf = Finite 1"
  "clamp_sample MinusInf = Finite (- 1)"
  "clamp_sample (Finite x) = Finite (if 1 < x then 1 else if x < - 1 then - 1 else x)"
  by (simp_all add: clamp_sample_def)

lemma clamp_sample_range: "v \<noteq> NaN \<Longrightarrow> in_unit_range (clamp_sample v)"
  by (cases v) (simp_all add: clamp_sample_cases)

subsection \<open>The traces of the two passes\<close>

lemma study_loop_events: "study_loop w frame k tr = tr @ study_events w frame k"
proof (induction w frame k tr rule: study_loop.induct)
  case (1 w frame k tr)
  show ?case
  proof (cases "frame < frames w")
    case False
    then show ?thesis
      by (subst study_loop.simps, subst study_events.simps) simp
  next
    case True
    obtain count fbuf where r: "sf_readf_float w 1 k = (count, fbuf)"
      by (cases "sf_readf_float w 1 k")
    show ?thesis
    proof (cases "count \<le> 0")
      case True
      with \<open>frame < frames w\<close> r show ?thesis
        by (subst study_loop.simps, subst study_events.simps) simp
    next
      case False
      with \<open>frame < frames w\<close> r "1.IH" [OF \<open>frame < frames w\<close> r [symmetric] False]
      show ?thesis
        by (subst study_loop.simps, subst study_events.simps) simp
    qed
  qed
qed

lemma study_events_all_study: "list_all is_study (study_events w frame k)"
proof (induction w frame k rule: study_events.induct)
  case (1 w frame k)
  show ?case
  proof (cases "frame < frames w")
    case False
    then show ?thesis by (subst study_events.simps) simp
  next
    case True
    obtain count fbuf where r: "sf_readf_float w 1 k = (count, fbuf)"
      by (cases "sf_readf_float w 1 k")
    show ?thesis
    proof (cases "count \<le> 0")
      case True
      with \<open>frame < frames w\<close> r show ?thesis by (subst study_events.simps) simp
    next
      case False
      with \<open>frame < frames w\<close> r "1.IH" [OF \<open>frame < frames w\<close> r [symmetric] False]
      show ?thesis by (subst study_events.simps) simp
    qed
  qed
qed

lemma interleaved_index:
  fixes i a c n :: nat
  assumes "i < a" and "c < n"
  shows "i * n + c < n * a"
proof -
  from assms(2) have "i * n + c < Suc i * n" by simp
  also from assms(1) have "Suc i * n \<le> a * n"
    by (intro mult_le_mono1) simp
  finally show ?thesis by (simp add: mult.commute)
qed

lemma written_clamped_write_block:
  "\<exists>fobf. trace (write_block w a st) = trace st @ [Retrieve a, Writef fobf a] \<and>
     written_clamped w (Writef fobf a)"
proof -
  let ?obf = "retrieved w (n_retrieve st)"
  let ?fobf = "interleave_clamped (channels w) a ?obf"
  have "\<forall>c<channels w. \<forall>i<a. ?fobf ! (i * channels w + c) = clamp_sample (?obf c i)"
  proof (intro allI impI)
    fix c i assume c: "c < channels w" and i: "i < a"
    then have "i * channels w + c < channels w * a"
      by (simp add: interleaved_index)
    with c show "?fobf ! (i * channels w + c) = clamp_sample (?obf c i)"
      by (simp add: interleave_clamped_def)
  qed
  then have "written_clamped w (Writef ?fobf a)"
    unfolding written_clamped_def by (auto simp: interleave_clamped_def)
  then show ?thesis
    by (auto simp: write_block_def Let_def fill_fobf_interleave)
qed

lemma process_loop_trace:
  "\<exists>more. trace (process_loop w s frame k st) = trace st @ more \<and>
     \<not> list_ex is_study more \<and> list_all (written_clamped w) more"
proof (induction w s frame k st rule: process_loop.induct)
  case (1 w s frame k st)
  show ?case
  proof (cases "frame < frames w")
    case False
    then show ?thesis by (subst process_loop.simps) simp
  next
    case True
    obtain count fbuf where r: "sf_readf_float w s k = (count, fbuf)"
      by (cases "sf_readf_float w s k")
    show ?thesis
    proof (cases "count < 0")
      case True
      with \<open>frame < frames w\<close> r show ?thesis by (subst process_loop.simps) simp
    next
      case False
      define st1 where "st1 = st\<lparr> countIn := countIn st + count,
          trace := trace st @ [Process (deinterleave (channels w) count fbuf) count
            (frame + ibs \<ge> frames w)] \<rparr>"
      define avail where "avail = available w (n_available st1)"
      define st2 where "st2 = st1\<lparr> n_available := Suc (n_available st1) \<rparr>"
      define st3 where "st3 = (if avail > 0 then write_block w (nat avail) st2 else st2)"
      from True r False have unfold: "process_loop w s frame k st =
          process_loop w s (frame + ibs) (Suc k) st3"
        by (subst process_loop.simps) (simp add: st1_def avail_def st2_def st3_def Let_def)
      have "\<exists>m1. trace st3 = trace st @ m1 \<and> \<not> list_ex is_study m1 \<and>
          list_all (written_clamped w) m1"
      proof (cases "avail > 0")
        case True
        then obtain fobf where "trace st3 = trace st2 @ [Retrieve (nat avail), Writef fobf (nat avail)]"
            "written_clamped w (Writef fobf (nat avail))"
          using written_clamped_write_block [of w "nat avail" st2] by (auto simp: st3_def)
        then show ?thesis
          by (simp add: st2_def st1_def written_clamped_def)
      next
        case False
        then show ?thesis
          by (simp add: st3_def st2_def st1_def written_clamped_def)
      qed
      then obtain m1 where m1: "trace st3 = trace st @ m1" "\<not> list_ex is_study m1"
          "list_all (written_clamped w) m1"
        by blast
      from "1.IH" [OF True r [symmetric] False st1_def avail_def st2_def st3_def]
      obtain m2 where m2: "trace (process_loop w s (frame + ibs) (Suc k) st3) = trace st3 @ m2"
          "\<not> list_ex is_study m2" "list_all (written_clamped w) m2"
        by blast
      from unfold m1 m2 have "trace (process_loop w s frame k st) = trace st @ (m1 @ m2) \<and>
          \<not> list_ex is_study (m1 @ m2) \<and> list_all (written_clamped w) (m1 @ m2)"
        by simp
      then show ?thesis by blast
    qed
  qed
qed

subsection \<open>The drain loop\<close>

lemma write_block_simps:
  "n_available (write_block w a st) = n_available st"
  "n_retrieve (write_block w a st) = Suc (n_retrieve st)"
  "countIn (write_block w a st) = countIn st"
  "countOut (write_block w a st) = countOut st + int a"
  by (simp_all add: write_block_def Let_def)

lemma drain_step_n_available:
  "n_available (drain_step w a st) = n_available st"
  by (simp add: drain_step_def write_block_simps)

lemma drain_steps_n_available:
  "n_available (drain_steps w d st) = n_available st + d"
  by (induction d arbitrary: st) (simp_all add: drain_step_n_available)

lemma drain_loop_steps:
  "\<forall>j<d. 0 \<le> available w (n_available st + j) \<Longrightarrow>
   drain_loop w st = drain_loop w (drain_steps w d st)"
proof (induction d arbitrary: st)
  case 0
  show ?case by simp
next
  case (Suc d)
  let ?st1 = "drain_step w (available w (n_available st)) (st\<lparr> n_available := Suc (n_available st) \<rparr>)"
  from Suc.prems have a0: "0 \<le> available w (n_available st)"
    by (metis add.right_neutral zero_less_Suc)
  have "\<forall>j<d. 0 \<le> available w (n_available ?st1 + j)"
  proof (intro allI impI)
    fix j assume "j < d"
    then have "Suc j < Suc d" by simp
    with Suc.prems have "0 \<le> available w (n_available st + Suc j)" by blast
    then show "0 \<le> available w (n_available ?st1 + j)"
      by (simp add: drain_step_n_available)
  qed
  then have "drain_loop w ?st1 = drain_loop w (drain_steps w d ?st1)"
    by (rule Suc.IH)
  moreover from a0 have "drain_loop w st = drain_loop w ?st1"
    by (subst drain_loop.simps) simp
  ultimately show ?case by simp
qed

lemma drain_loop_exit:
  assumes "\<forall>j<d. 0 \<le> available w (n_available st + j)"
    and "available w (n_available st + d) < 0"
  shows "drain_loop w st =
    Some ((drain_steps w d st)\<lparr> n_available := Suc (n_available st + d) \<rparr>)"
proof -
  from assms(1) have "drain_loop w st = drain_loop w (drain_steps w d st)"
    by (rule drain_loop_steps)
  also from assms(2) have "\<dots> = Some ((drain_steps w d st)\<lparr> n_available := Suc (n_available st + d) \<rparr>)"
    by (subst drain_loop.simps) (simp add: drain_steps_n_available)
  finally show ?thesis .
qed

lemma first_negative:
  assumes "\<exists>n\<ge>n0. available w n < 0"
  shows "\<exists>d. (\<forall>j<d. 0 \<le> available w (n0 + j)) \<and> available w (n0 + d) < 0"
proof -
  from assms obtain n where "n0 \<le> n" "available w n < 0" by blast
  then have "\<exists>d. available w (n0 + d) < 0"
    by (metis le_Suc_ex)
  then obtain d where "available w (n0 + d) < 0 \<and> (\<forall>j<d. \<not> available w (n0 + j) < 0)"
    using exists_least_iff [of "\<lambda>d. available w (n0 + d) < 0"] by blast
  then show ?thesis
    by (metis not_less)
qed

lemma drain_loop_Some_negative:
  assumes "drain_loop w st = Some st'"
  shows "\<exists>n\<ge>n_available st. available w n < 0"
proof (rule drain_loop.raw_induct
    [where P = "\<lambda>w st st'. \<exists>n\<ge>n_available st. available w n < 0", OF _ assms])
  fix dl :: "world \<Rightarrow> run \<Rightarrow> run option" and w st y
  assume IH: "\<And>w st y. dl w st = Some y \<Longrightarrow> \<exists>n\<ge>n_available st. available w n < 0"
    and eq: "(if 0 \<le> available w (n_available st)
      then dl w (drain_step w (available w (n_available st))
              (st\<lparr>n_available := Suc (n_available st)\<rparr>))
      else Some (st\<lparr>n_available := Suc (n_available st)\<rparr>)) = Some y"
  show "\<exists>n\<ge>n_available st. available w n < 0"
  proof (cases "0 \<le> available w (n_available st)")
    case True
    with eq have "dl w (drain_step w (available w (n_available st))
        (st\<lparr> n_available := Suc (n_available st) \<rparr>)) = Some y"
      by simp
    then have "\<exists>n\<ge>Suc (n_available st). available w n < 0"
      using IH by (fastforce simp: drain_step_n_available)
    then show ?thesis
      by (meson Suc_leD)
  next
    case False
    then show ?thesis by (auto intro: exI [of _ "n_available st"])
  qed
qed

lemma drain_step_trace:
  "\<exists>more. trace (drain_step w a st) = trace st @ more \<and>
     filter (\<lambda>e. \<not> is_writef e) more = [poll_action a] \<and>
     \<not> list_ex is_study more \<and> \<not> list_ex is_process more \<and>
     list_all (written_clamped w) more"
proof (cases "a > 0")
  case True
  then obtain fobf where "trace (drain_step w a st) = trace st @ [Retrieve (nat a), Writef fobf (nat a)]"
      "written_clamped w (Writef fobf (nat a))"
    using written_clamped_write_block [of w "nat a" st] by (auto simp: drain_step_def)
  with True show ?thesis
    by (simp add: poll_action_def written_clamped_def)
next
  case False
  then show ?thesis
    by (simp add: drain_step_def poll_action_def written_clamped_def)
qed

lemma drain_steps_trace:
  "\<exists>more. trace (drain_steps w d st) = trace st @ more \<and>
     filter (\<lambda>e. \<not> is_writef e) more =
       map (\<lambda>j. poll_action (available w j)) [n_available st ..< n_available st + d] \<and>
     \<not> list_ex is_study more \<and> \<not> list_ex is_process more \<and>
     list_all (written_clamped w) more"
proof (induction d arbitrary: st)
  case 0
  show ?case by simp
next
  case (Suc d)
  let ?st0 = "st\<lparr> n_available := Suc (n_available st) \<rparr>"
  let ?st1 = "drain_step w (available w (n_available st)) ?st0"
  obtain m1 where m1: "trace ?st1 = trace ?st0 @ m1"
      "filter (\<lambda>e. \<not> is_writef e) m1 = [poll_action (available w (n_available st))]"
      "\<not> list_ex is_study m1" "\<not> list_ex is_process m1" "list_all (written_clamped w) m1"
    using drain_step_trace [of w "available w (n_available st)" ?st0] by blast
  obtain m2 where m2: "trace (drain_steps w d ?st1) = trace ?st1 @ m2"
      "filter (\<lambda>e. \<not> is_writef e) m2 =
         map (\<lambda>j. poll_action (available w j)) [n_available ?st1 ..< n_available ?st1 + d]"
      "\<not> list_ex is_study m2" "\<not> list_ex is_process m2" "list_all (written_clamped w) m2"
    using Suc.IH [of ?st1] by blast
  have n1: "n_available ?st1 = Suc (n_available st)"
    by (simp add: drain_step_n_available)
  have "[n_available st ..< n_available st + Suc d] =
      n_available st # [Suc (n_available st) ..< Suc (n_available st) + d]"
    by (simp add: upt_rec)
  with m1 m2 n1 have "trace (drain_steps w (Suc d) st) = trace st @ (m1 @ m2) \<and>
     filter (\<lambda>e. \<not> is_writef e) (m1 @ m2) =
       map (\<lambda>j. poll_action (available w j)) [n_available st ..< n_available st + Suc d] \<and>
     \<not> list_ex is_study (m1 @ m2) \<and> \<not> list_ex is_process (m1 @ m2) \<and>
     list_all (written_clamped w) (m1 @ m2)"
    by simp
  then show ?case by blast
qed

text \<open>
  Claim C7. The drain loop returns exactly when the stretcher's \<open>available()\<close>
  eventually returns a negative value, which is the terminal convergence of the
  specification. When it returns, it has stopped at the first negative poll, and for
  each poll before that one it has retrieved (and written) \<open>avail\<close> frames when the
  poll was positive, and slept 10000 microseconds before polling again when it was
  zero.
\<close>

theorem drain_loop_behaviour:
  "(drain_loop w st \<noteq> None) = terminal_convergence w (n_available st) \<and>
   (drain_loop w st = Some st' \<longrightarrow>
      (\<exists>n more. n_available st \<le> n \<and> available w n < 0 \<and>
         (\<forall>j. n_available st \<le> j \<and> j < n \<longrightarrow> 0 \<le> available w j) \<and>
         n_available st' = Suc n \<and>
         trace st' = trace st @ more \<and>
         filter (\<lambda>e. \<not> is_writef e) more =
           map (\<lambda>j. poll_action (available w j)) [n_available st ..< n]))"
proof (intro conjI impI)
  show "(drain_loop w st \<noteq> None) = terminal_convergence w (n_available st)"
    unfolding terminal_convergence_def
  proof
    assume "drain_loop w st \<noteq> None"
    then show "\<exists>n\<ge>n_available st. available w n < 0"
      using drain_loop_Some_negative by blast
  next
    assume "\<exists>n\<ge>n_available st. available w n < 0"
    then obtain d where "\<forall>j<d. 0 \<le> available w (n_available st + j)"
        "available w (n_available st + d) < 0"
      using first_negative by blast
    then show "drain_loop w st \<noteq> None"
      using drain_loop_exit [of d w st] by simp
  qed
next
  assume s: "drain_loop w st = Some st'"
  then have "\<exists>n\<ge>n_available st. available w n < 0"
    by (rule drain_loop_Some_negative)
  then obtain d where d: "\<forall>j<d. 0 \<le> available w (n_available st + j)"
      "available w (n_available st + d) < 0"
    using first_negative by blast
  with s have st': "st' = (drain_steps w d st)\<lparr> n_available := Suc (n_available st + d) \<rparr>"
    using drain_loop_exit [of d w st] by simp
  let ?n = "n_available st + d"
  from d have before: "\<forall>j. n_available st \<le> j \<and> j < ?n \<longrightarrow> 0 \<le> available w j"
    by (metis le_Suc_ex nat_add_left_cancel_less)
  from st' drain_steps_trace [of w d st]
  obtain more where "trace st' = trace st @ more"
      "filter (\<lambda>e. \<not> is_writef e) more =
         map (\<lambda>j. poll_action (available w j)) [n_available st ..< ?n]"
    by auto
  with d before st' show "\<exists>n more. n_available st \<le> n \<and> available w n < 0 \<and>
         (\<forall>j. n_available st \<le> j \<and> j < n \<longrightarrow> 0 \<le> available w j) \<and>
         n_available st' = Suc n \<and>
         trace st' = trace st @ more \<and>
         filter (\<lambda>e. \<not> is_writef e) more =
           map (\<lambda>j. poll_action (available w j)) [n_available st ..< n]"
    by (intro exI [of _ ?n] exI [of _ more]) simp
qed

subsection \<open>The study pass\<close>

lemma blocks_less:
  fixes F K :: int
  shows "(K < (F + 1024 - 1) div 1024) = (K * 1024 < F)"
  by linarith

lemma nblocks_less: "(k < nblocks w) = (int k * ibs < frames w)"
  unfolding nblocks_def ibs_def by (simp only: zless_nat_eq_int_zless blocks_less)

lemma last_block:
  assumes "int k * ibs < frames w"
  shows "(frames w \<le> int k * ibs + ibs) = (Suc k = nblocks w)"
proof -
  have "(Suc k = nblocks w) = (k < nblocks w \<and> \<not> Suc k < nblocks w)"
    by auto
  also have "\<dots> = (int k * ibs < frames w \<and> \<not> int (Suc k) * ibs < frames w)"
    by (simp only: nblocks_less)
  also from assms have "\<dots> = (frames w \<le> int k * ibs + ibs)"
    by (auto simp: algebra_simps)
  finally show ?thesis by simp
qed

lemma study_events_delivered:
  assumes "reads_deliver w"
  shows "study_events w (int k * ibs) k = map (study_call w) [k..<nblocks w] \<and>
         sum_list (map study_count (study_events w (int k * ibs) k)) =
           max 0 (frames w - int k * ibs)"
proof (induction "nblocks w - k" arbitrary: k)
  case 0
  then have "\<not> k < nblocks w" by simp
  then have "\<not> int k * ibs < frames w"
    by (simp add: nblocks_less)
  moreover from \<open>\<not> k < nblocks w\<close> have "[k..<nblocks w] = []"
    by simp
  ultimately show ?case
    by (subst (1 2) study_events.simps) simp
next
  case (Suc d)
  then have k: "k < nblocks w" by simp
  then have lt: "int k * ibs < frames w"
    by (simp add: nblocks_less)
  obtain count fbuf where r: "sf_readf_float w 1 k = (count, fbuf)"
    by (cases "sf_readf_float w 1 k")
  from assms lt r have count: "count = min ibs (frames w - int k * ibs)"
    by (auto simp: reads_deliver_def)
  with lt have pos: "\<not> count \<le> 0"
    by (simp add: ibs_def)
  from Suc.hyps have dk: "d = nblocks w - Suc k" by simp
  have IH: "study_events w (int (Suc k) * ibs) (Suc k) = map (study_call w) [Suc k..<nblocks w]"
      "sum_list (map study_count (study_events w (int (Suc k) * ibs) (Suc k))) =
         max 0 (frames w - int (Suc k) * ibs)"
    by (rule conjunct1 [OF Suc.hyps(1) [OF dk]], rule conjunct2 [OF Suc.hyps(1) [OF dk]])
  have next_frame: "int k * ibs + ibs = int (Suc k) * ibs"
    by (simp add: algebra_simps)
  from lt r pos have unfold: "study_events w (int k * ibs) k =
      Study (deinterleave (channels w) count fbuf) count (frames w \<le> int k * ibs + ibs)
        # study_events w (int (Suc k) * ibs) (Suc k)"
    by (subst study_events.simps) (simp add: next_frame)
  from lt have "(frames w \<le> int k * ibs + ibs) = (Suc k = nblocks w)"
    by (rule last_block)
  with r count have call: "Study (deinterleave (channels w) count fbuf) count
      (frames w \<le> int k * ibs + ibs) = study_call w k"
    by (simp add: study_call_def)
  from k have "[k..<nblocks w] = k # [Suc k..<nblocks w]"
    by (simp add: upt_rec)
  with unfold call IH(1) have 1: "study_events w (int k * ibs) k = map (study_call w) [k..<nblocks w]"
    by simp
  from unfold IH(2) count lt have 2: "sum_list (map study_count (study_events w (int k * ibs) k)) =
      max 0 (frames w - int k * ibs)"
    by (auto simp: algebra_simps ibs_def min_def max_def)
  from 1 2 show ?case by simp
qed

lemma before_drain_trace:
  "\<exists>rest. trace (before_drain w v) = ctor_events w v @ study_pass w v [] @ rest \<and>
     \<not> list_ex is_study rest \<and> list_all (written_clamped w) rest"
proof -
  let ?tr = "study_pass w v (ctor_events w v)"
  have tr: "?tr = ctor_events w v @ study_pass w v []"
    by (simp add: study_pass_def study_loop_events [of w 0 0 "ctor_events w v"]
        study_loop_events [of w 0 0 "[]"])
  obtain rest where "trace (before_drain w v) = ?tr @ rest" "\<not> list_ex is_study rest"
      "list_all (written_clamped w) rest"
    using process_loop_trace [of w "if realtime v then 1 else 2" 0 0
        "\<lparr> trace = ?tr, n_available = 0, n_retrieve = 0, countIn = 0, countOut = 0 \<rparr>"]
    by (auto simp: before_drain_def process_pass_def)
  with tr show ?thesis by simp
qed

lemma study_pass_all_study: "list_all is_study (study_pass w v [])"
  by (simp add: study_pass_def study_loop_events [of w 0 0 "[]"] study_events_all_study)

lemma drain_loop_trace:
  assumes "drain_loop w st = Some st'"
  shows "\<exists>more. trace st' = trace st @ more \<and> \<not> list_ex is_study more \<and>
     \<not> list_ex is_process more \<and> list_all (written_clamped w) more"
proof -
  from assms have "\<exists>n\<ge>n_available st. available w n < 0"
    by (rule drain_loop_Some_negative)
  then obtain d where d: "\<forall>j<d. 0 \<le> available w (n_available st + j)"
      "available w (n_available st + d) < 0"
    using first_negative by blast
  with assms have "st' = (drain_steps w d st)\<lparr> n_available := Suc (n_available st + d) \<rparr>"
    using drain_loop_exit [of d w st] by simp
  with drain_steps_trace [of w d st] show ?thesis by auto
qed

lemma main_trace:
  assumes "startup cl w = Inr v" and "main cl w = Some out"
  shows "exit_code out = 0 \<and>
    (\<exists>rest. events out = ctor_events w v @ study_pass w v [] @ rest \<and>
       \<not> list_ex is_study rest \<and> list_all (written_clamped w) rest)"
proof -
  from assms obtain st where st: "drain_loop w (before_drain w v) = Some st"
      and out: "out = \<lparr> exit_code = 0, events = trace st \<rparr>"
    by (auto simp: main_def split: option.splits)
  obtain r1 where r1: "trace (before_drain w v) = ctor_events w v @ study_pass w v [] @ r1"
      "\<not> list_ex is_study r1" "list_all (written_clamped w) r1"
    using before_drain_trace by blast
  obtain r2 where r2: "trace st = trace (before_drain w v) @ r2"
      "\<not> list_ex is_study r2" "list_all (written_clamped w) r2"
    using drain_loop_trace [OF st] by blast
  from r1 r2 have "trace st = ctor_events w v @ study_pass w v [] @ (r1 @ r2) \<and>
      \<not> list_ex is_study (r1 @ r2) \<and> list_all (written_clamped w) (r1 @ r2)"
    by simp
  with out show ?thesis by auto
qed

text \<open>
  Claim C6. The trace of a run is the constructor call and the duration hint, then
  the calls of the study pass, then a rest without any \<open>study\<close> call; the \<open>process\<close>
  calls are all in the rest (the study pass is made of \<open>study\<close> calls only). In
  real-time mode the study pass is empty. In offline mode, over a file whose reads
  deliver the frames that its header reports, the study pass is one call for each
  block, in order, with \<open>final\<close> true on the last block and on no other, and the frames
  passed add up to the reported frame count. The same holds of the trace of a whole
  run that returns.
\<close>

theorem study_precedes_process:
  "(\<exists>rest. trace (before_drain w v) = ctor_events w v @ study_pass w v [] @ rest \<and>
      \<not> list_ex is_study rest) \<and>
   list_all is_study (study_pass w v []) \<and>
   (realtime v \<longrightarrow> study_pass w v [] = []) \<and>
   (\<not> realtime v \<and> reads_deliver w \<longrightarrow>
      study_pass w v [] = map (study_call w) [0..<nblocks w] \<and>
      sum_list (map study_count (study_pass w v [])) = frames w) \<and>
   (startup cl w = Inr v \<and> main cl w = Some out \<longrightarrow>
      (\<exists>rest. events out = ctor_events w v @ study_pass w v [] @ rest \<and>
         \<not> list_ex is_study rest))"
proof (intro conjI impI)
  show "\<exists>rest. trace (before_drain w v) = ctor_events w v @ study_pass w v [] @ rest \<and>
      \<not> list_ex is_study rest"
    using before_drain_trace [of w v] by blast
  show "list_all is_study (study_pass w v [])"
    by (rule study_pass_all_study)
  show "study_pass w v [] = []" if "realtime v"
    using that by (simp add: study_pass_def)
next
  assume h: "\<not> realtime v \<and> reads_deliver w"
  then have eq: "study_pass w v [] = study_events w (int 0 * ibs) 0"
    by (simp add: study_pass_def study_loop_events [of w 0 0 "[]"])
  from h have r: "reads_deliver w" by simp
  have d: "study_events w (int 0 * ibs) 0 = map (study_call w) [0..<nblocks w]"
      "sum_list (map study_count (study_events w (int 0 * ibs) 0)) = max 0 (frames w - int 0 * ibs)"
    by (rule conjunct1 [OF study_events_delivered [OF r]],
        rule conjunct2 [OF study_events_delivered [OF r]])
  from eq d(1) show "study_pass w v [] = map (study_call w) [0..<nblocks w]"
    by (simp only:)
  from h have "0 \<le> frames w" by (simp add: reads_deliver_def)
  with d(2) have "sum_list (map study_count (study_events w (int 0 * ibs) 0)) = frames w"
    by simp
  with eq show "sum_list (map study_count (study_pass w v [])) = frames w"
    by (simp only:)
next
  assume "startup cl w = Inr v \<and> main cl w = Some out"
  then show "\<exists>rest. events out = ctor_events w v @ study_pass w v [] @ rest \<and>
         \<not> list_ex is_study rest"
    using main_trace [of cl w v out] by blast
qed

subsection \<open>The concrete runs, evaluated\<close>

lemma upt_small: "[0..<2] = [0, 1]" "[0..<3] = [0, 1, 2]" "[0..<1] = [0]"
  by (simp_all add: upt_rec)

lemma example_startup:
  "\<not> usage_error (parse_options (options_given example_cmdline)) example_cmdline"
  "switch_crispness (parse_options (options_given example_cmdline)) = example_vars"
  "open_in_ok w \<Longrightarrow> open_out_ok w \<Longrightarrow> startup example_cmdline w = Inr example_vars"
  by (simp_all add: startup_def usage_error_def example_cmdline_def parse_options_def
      switch_crispness_def example_vars_def init_vars_def)

lemma example_ctor_events:
  "frames w = 3 \<Longrightarrow> ctor_events w example_vars = example_ctor"
  by (auto simp: ctor_events_def example_ctor_def example_vars_def init_vars_def
      build_options_def flag_options_def threading_options_def final_frequencyshift_def)

lemma example_deinterleave:
  "deinterleave 2 3 (\<lambda>j. Finite (real j / 4)) = example_block"
  by (simp add: deinterleave_def example_block_def upt_small)

lemma example_before_drain:
  "before_drain (example_world\<lparr> retrieved := r \<rparr>) example_vars =
     \<lparr> trace = example_ctor @ [Study example_block 3 True, Process example_block 3 True],
       n_available = 1, n_retrieve = 0, countIn = 3, countOut = 0 \<rparr>"
proof -
  let ?w = "example_world\<lparr> retrieved := r \<rparr>"
  have c: "ctor_events ?w example_vars = example_ctor"
    by (rule example_ctor_events) (simp add: example_world_def)
  have nr: "\<not> realtime example_vars"
    by (simp add: example_vars_def init_vars_def)
  have s: "study_pass ?w example_vars example_ctor =
      example_ctor @ [Study example_block 3 True]"
    using nr
    by (simp add: study_pass_def study_loop.simps example_world_def ibs_def example_deinterleave)
  have "process_pass ?w example_vars (example_ctor @ [Study example_block 3 True]) =
      \<lparr> trace = example_ctor @ [Study example_block 3 True, Process example_block 3 True],
        n_available = 1, n_retrieve = 0, countIn = 3, countOut = 0 \<rparr>"
    using nr
    by (simp add: process_pass_def process_loop.simps example_world_def ibs_def
        example_deinterleave)
  with c s show ?thesis
    by (simp add: before_drain_def)
qed

lemma write_block_eq:
  "write_block w a st =
     st\<lparr> trace := trace st @
            [Retrieve a, Writef (interleave_clamped (channels w) a (retrieved w (n_retrieve st))) a],
         n_retrieve := Suc (n_retrieve st),
         countOut := countOut st + int a \<rparr>"
  by (simp add: write_block_def Let_def fill_fobf_interleave)

lemma example_drain:
  "drain_loop (example_world\<lparr> retrieved := r \<rparr>)
     \<lparr> trace = tr, n_available = 1, n_retrieve = 0, countIn = 3, countOut = 0 \<rparr> =
   Some \<lparr> trace = tr @ [Retrieve 1, Writef [clamp_sample (r 0 0 0), clamp_sample (r 0 1 0)] 1,
                        Usleep 10000],
          n_available = 4, n_retrieve = 1, countIn = 3, countOut = 1 \<rparr>"
  apply (subst drain_loop.simps)
  apply (simp add: example_world_def drain_step_def write_block_eq
      interleave_clamped_def upt_small)
  apply (subst drain_loop.simps)
  apply (simp add: drain_step_def)
  apply (subst drain_loop.simps)
  apply simp
  done

lemma example_main:
  "main example_cmdline (example_world\<lparr> retrieved := r \<rparr>) =
     Some \<lparr> exit_code = 0,
            events = example_ctor @
              [Study example_block 3 True, Process example_block 3 True, Retrieve 1,
               Writef [clamp_sample (r 0 0 0), clamp_sample (r 0 1 0)] 1, Usleep 10000] \<rparr>"
proof -
  have s: "startup example_cmdline (example_world\<lparr> retrieved := r \<rparr>) = Inr example_vars"
    by (rule example_startup) (simp_all add: example_world_def)
  have "main example_cmdline (example_world\<lparr> retrieved := r \<rparr>) =
      (case drain_loop (example_world\<lparr> retrieved := r \<rparr>)
         (before_drain (example_world\<lparr> retrieved := r \<rparr>) example_vars) of
         None \<Rightarrow> None
       | Some st \<Rightarrow> Some \<lparr> exit_code = 0, events = trace st \<rparr>)"
    by (simp add: main_def s)
  also have "\<dots> = Some \<lparr> exit_code = 0,
      events = (example_ctor @ [Study example_block 3 True, Process example_block 3 True]) @
        [Retrieve 1, Writef [clamp_sample (r 0 0 0), clamp_sample (r 0 1 0)] 1, Usleep 10000] \<rparr>"
    by (simp only: example_before_drain example_drain option.case outcome.simps run.simps)
  finally show ?thesis by simp
qed

lemma example_world_retrieved:
  "example_world = example_world\<lparr> retrieved := (\<lambda>n c i. if c = 0 then Finite 2 else Finite (- 3)) \<rparr>"
  by (simp add: example_world_def)

lemma example_main_clamped:
  "main example_cmdline example_world =
     Some \<lparr> exit_code = 0,
            events = example_ctor @
              [Study example_block 3 True, Process example_block 3 True, Retrieve 1,
               Writef [Finite 1, Finite (- 1)] 1, Usleep 10000] \<rparr>"
  by (subst example_world_retrieved) (simp add: example_main clamp_sample_cases)

lemma example_main_nan:
  "main example_cmdline nan_world =
     Some \<lparr> exit_code = 0,
            events = example_ctor @
              [Study example_block 3 True, Process example_block 3 True, Retrieve 1,
               Writef [NaN, NaN] 1, Usleep 10000] \<rparr>"
  by (simp add: nan_world_def example_main clamp_sample_cases)

subsection \<open>Exit codes\<close>

lemma help_parse: "help' (parse_options os) = (Opt_h \<in> set os \<or> Opt_other \<in> set os)"
proof (induction os rule: rev_induct)
  case Nil
  show ?case by (simp add: parse_options_def init_vars_def)
next
  case (snoc opt os)
  then show ?case by (cases opt) (auto simp: parse_options_snoc)
qed

lemma haveRatio_parse: "haveRatio (parse_options os) = list_ex ratio_option os"
proof (induction os rule: rev_induct)
  case Nil
  show ?case by (simp add: parse_options_def init_vars_def)
next
  case (snoc opt os)
  then show ?case by (cases opt) (auto simp: parse_options_snoc)
qed

lemma usage_error_parse:
  "usage_error (parse_options (options_given cl)) cl = (\<not> command_line_accepted cl)"
  by (auto simp: usage_error_def command_line_accepted_def help_parse haveRatio_parse)

lemma main_usage:
  "usage_error (parse_options (options_given cl)) cl \<Longrightarrow>
   main cl w = Some \<lparr> exit_code = 2, events = [PrintUsage] \<rparr>"
  by (simp add: main_def startup_def)

lemma main_after_startup:
  assumes "\<not> usage_error (parse_options (options_given cl)) cl"
    and "open_in_ok w" and "open_out_ok w"
  shows "startup cl w = Inr (switch_crispness (parse_options (options_given cl)))"
  using assms by (simp add: startup_def)

text \<open>
  Claim C4. The driver prints the usage text and exits with code 2 when none of the
  options \<open>--time\<close>, \<open>--tempo\<close>, \<open>--pitch\<close>, \<open>--frequency\<close> was given or when there are not
  exactly two positional arguments. When the command line is accepted, it exits with
  code 1 when the input file fails to open, and with code 1 when the input file opens
  and the output file does not. When both open, and the file has fewer than
  \<open>2^31 - 1024\<close> frames (so that the \<open>int\<close> counter \<open>frame\<close> of the loops cannot overflow),
  the driver returns exactly when the stretcher eventually reports the negative
  sentinel, and then it returns 0.
\<close>

theorem exit_codes:
  "(\<not> list_ex ratio_option (options_given cl) \<or> length (positional cl) \<noteq> 2 \<longrightarrow>
      main cl w = Some \<lparr> exit_code = 2, events = [PrintUsage] \<rparr>) \<and>
   (command_line_accepted cl \<and> \<not> open_in_ok w \<longrightarrow>
      main cl w = Some \<lparr> exit_code = 1, events = [PrintOpenError False] \<rparr>) \<and>
   (command_line_accepted cl \<and> open_in_ok w \<and> \<not> open_out_ok w \<longrightarrow>
      main cl w = Some \<lparr> exit_code = 1, events = [PrintOpenError True] \<rparr>) \<and>
   (command_line_accepted cl \<and> open_in_ok w \<and> open_out_ok w \<and>
    frames w < 2 ^ 31 - 1024 \<longrightarrow>
      (main cl w \<noteq> None) =
        terminal_convergence w
          (n_available (before_drain w (switch_crispness (parse_options (options_given cl))))) \<and>
      (\<forall>out. main cl w = Some out \<longrightarrow> exit_code out = 0))"
proof (intro conjI impI)
  assume "\<not> list_ex ratio_option (options_given cl) \<or> length (positional cl) \<noteq> 2"
  then have "\<not> command_line_accepted cl"
    by (auto simp: command_line_accepted_def)
  then have "usage_error (parse_options (options_given cl)) cl"
    by (simp add: usage_error_parse)
  then show "main cl w = Some \<lparr> exit_code = 2, events = [PrintUsage] \<rparr>"
    by (rule main_usage)
next
  assume "command_line_accepted cl \<and> \<not> open_in_ok w"
  then have "\<not> usage_error (parse_options (options_given cl)) cl \<and> \<not> open_in_ok w"
    by (simp add: usage_error_parse)
  then show "main cl w = Some \<lparr> exit_code = 1, events = [PrintOpenError False] \<rparr>"
    by (simp add: main_def startup_def)
next
  assume "command_line_accepted cl \<and> open_in_ok w \<and> \<not> open_out_ok w"
  then have "\<not> usage_error (parse_options (options_given cl)) cl \<and> open_in_ok w \<and>
      \<not> open_out_ok w"
    by (simp add: usage_error_parse)
  then show "main cl w = Some \<lparr> exit_code = 1, events = [PrintOpenError True] \<rparr>"
    by (simp add: main_def startup_def)
next
  let ?v = "switch_crispness (parse_options (options_given cl))"
  assume "command_line_accepted cl \<and> open_in_ok w \<and> open_out_ok w \<and>
    frames w < 2 ^ 31 - 1024"
  then have "\<not> usage_error (parse_options (options_given cl)) cl \<and> open_in_ok w \<and>
      open_out_ok w"
    by (simp add: usage_error_parse)
  then have s: "startup cl w = Inr ?v"
    by (simp add: main_after_startup)
  have "(drain_loop w (before_drain w ?v) \<noteq> None) =
      (\<exists>n\<ge>n_available (before_drain w ?v). available w n < 0)"
  proof
    assume "drain_loop w (before_drain w ?v) \<noteq> None"
    then show "\<exists>n\<ge>n_available (before_drain w ?v). available w n < 0"
      using drain_loop_Some_negative by blast
  next
    assume "\<exists>n\<ge>n_available (before_drain w ?v). available w n < 0"
    then obtain d where "\<forall>j<d. 0 \<le> available w (n_available (before_drain w ?v) + j)"
        "available w (n_available (before_drain w ?v) + d) < 0"
      using first_negative by blast
    then show "drain_loop w (before_drain w ?v) \<noteq> None"
      using drain_loop_exit [of d w "before_drain w ?v"] by simp
  qed
  moreover from s have "(main cl w \<noteq> None) = (drain_loop w (before_drain w ?v) \<noteq> None)"
    by (simp add: main_def split: option.splits)
  ultimately show "(main cl w \<noteq> None) =
      terminal_convergence w (n_available (before_drain w ?v))"
    by (simp only: terminal_convergence_def)
  from s show "\<forall>out. main cl w = Some out \<longrightarrow> exit_code out = 0"
    by (auto simp: main_def split: option.splits)
qed

text \<open>
  \<open>--quiet --realtime in.wav out.wav\<close> has no ratio option and exits with 2;
  \<open>--time 2 in.wav out.wav\<close> is accepted, exits with 1 when either file cannot be
  opened, and returns 0 in the concrete run, whose file has three frames.
\<close>

theorem exit_codes_witness:
  "\<not> list_ex ratio_option (options_given no_ratio_cmdline) \<and>
   main no_ratio_cmdline example_world = Some \<lparr> exit_code = 2, events = [PrintUsage] \<rparr> \<and>
   command_line_accepted example_cmdline \<and>
   \<not> open_in_ok (example_world\<lparr> open_in_ok := False \<rparr>) \<and>
   main example_cmdline (example_world\<lparr> open_in_ok := False \<rparr>) =
     Some \<lparr> exit_code = 1, events = [PrintOpenError False] \<rparr> \<and>
   open_in_ok (example_world\<lparr> open_out_ok := False \<rparr>) \<and>
   \<not> open_out_ok (example_world\<lparr> open_out_ok := False \<rparr>) \<and>
   main example_cmdline (example_world\<lparr> open_out_ok := False \<rparr>) =
     Some \<lparr> exit_code = 1, events = [PrintOpenError True] \<rparr> \<and>
   open_in_ok example_world \<and> open_out_ok example_world \<and>
   frames example_world < 2 ^ 31 - 1024 \<and>
   terminal_convergence example_world
     (n_available (before_drain example_world
        (switch_crispness (parse_options (options_given example_cmdline))))) \<and>
   main example_cmdline example_world \<noteq> None \<and>
   map_option exit_code (main example_cmdline example_world) = Some 0"
proof -
  have n: "\<not> list_ex ratio_option (options_given no_ratio_cmdline)"
    by (simp add: no_ratio_cmdline_def)
  have a: "command_line_accepted example_cmdline"
    by (simp add: command_line_accepted_def example_cmdline_def)
  have o: "open_in_ok example_world" "open_out_ok example_world"
      "frames example_world < 2 ^ 31 - 1024"
    by (simp_all add: example_world_def)
  from exit_codes [of no_ratio_cmdline example_world] n
  have 1: "main no_ratio_cmdline example_world = Some \<lparr> exit_code = 2, events = [PrintUsage] \<rparr>"
    by simp
  from exit_codes [of example_cmdline "example_world\<lparr> open_in_ok := False \<rparr>"] a
  have 2: "main example_cmdline (example_world\<lparr> open_in_ok := False \<rparr>) =
     Some \<lparr> exit_code = 1, events = [PrintOpenError False] \<rparr>"
    by simp
  from exit_codes [of example_cmdline "example_world\<lparr> open_out_ok := False \<rparr>"] a o
  have 3: "main example_cmdline (example_world\<lparr> open_out_ok := False \<rparr>) =
     Some \<lparr> exit_code = 1, events = [PrintOpenError True] \<rparr>"
    by simp
  have m: "main example_cmdline example_world \<noteq> None"
    by (simp add: example_main_clamped)
  from exit_codes [of example_cmdline example_world] a o m
  have 4: "terminal_convergence example_world
     (n_available (before_drain example_world
        (switch_crispness (parse_options (options_given example_cmdline)))))"
    by simp
  from exit_codes [of example_cmdline example_world] a o example_main_clamped
  have 5: "map_option exit_code (main example_cmdline example_world) = Some 0"
    by simp
  from n a o 1 2 3 4 5 m show ?thesis
    by simp
qed

subsection \<open>The claims on the concrete run\<close>

lemma example_reads_deliver: "reads_deliver example_world"
  unfolding reads_deliver_def
proof (intro conjI allI impI)
  show "0 \<le> frames example_world" by (simp add: example_world_def)
  show "frames example_world < 2 ^ 31 - 1024" by (simp add: example_world_def)
  fix k assume "int k * ibs < frames example_world"
  then have "k = 0" by (cases k) (simp_all add: example_world_def ibs_def)
  then show "fst (sf_readf_float example_world 1 k) = min ibs (frames example_world - int k * ibs)"
    by (simp add: example_world_def ibs_def)
qed

text \<open>
  The study pass of the concrete run is one call, with \<open>final\<close> true and three frames;
  with \<open>realtime\<close> set there is no study call.
\<close>

theorem study_precedes_process_witness:
  "\<not> realtime example_vars \<and> reads_deliver example_world \<and>
   startup example_cmdline example_world = Inr example_vars \<and>
   main example_cmdline example_world =
     Some \<lparr> exit_code = 0,
            events = example_ctor @
              [Study example_block 3 True, Process example_block 3 True, Retrieve 1,
               Writef [Finite 1, Finite (- 1)] 1, Usleep 10000] \<rparr> \<and>
   study_pass example_world example_vars [] = map (study_call example_world) [0..<nblocks example_world] \<and>
   nblocks example_world = 1 \<and>
   study_call example_world 0 = Study example_block 3 True \<and>
   sum_list (map study_count (study_pass example_world example_vars [])) = 3 \<and>
   realtime (example_vars\<lparr> realtime := True \<rparr>) \<and>
   study_pass example_world (example_vars\<lparr> realtime := True \<rparr>) [] = []"
proof -
  have nr: "\<not> realtime example_vars"
    by (simp add: example_vars_def init_vars_def)
  have s: "startup example_cmdline example_world = Inr example_vars"
    by (rule example_startup) (simp_all add: example_world_def)
  have n: "nblocks example_world = 1"
    by (simp add: nblocks_def example_world_def ibs_def)
  have c: "study_call example_world 0 = Study example_block 3 True"
    by (simp add: study_call_def n) (simp add: example_world_def ibs_def example_deinterleave)
  have f: "frames example_world = 3"
    by (simp add: example_world_def)
  have rt: "study_pass example_world (example_vars\<lparr> realtime := True \<rparr>) [] = []"
    using study_precedes_process [of example_world "example_vars\<lparr> realtime := True \<rparr>"]
    by simp
  from study_precedes_process [of example_world example_vars example_cmdline] nr
    example_reads_deliver s example_main_clamped n c f rt
  show ?thesis
    by simp
qed

text \<open>The drain loop of the concrete run: one retrieval, one sleep, the sentinel at poll 3.\<close>

theorem drain_loop_behaviour_witness:
  "terminal_convergence example_world 1 \<and>
   drain_loop example_world
     \<lparr> trace = [], n_available = 1, n_retrieve = 0, countIn = 3, countOut = 0 \<rparr> =
     Some \<lparr> trace = [Retrieve 1, Writef [Finite 1, Finite (- 1)] 1, Usleep 10000],
            n_available = 4, n_retrieve = 1, countIn = 3, countOut = 1 \<rparr> \<and>
   available example_world 3 < 0"
proof -
  have d: "drain_loop example_world
      \<lparr> trace = [], n_available = 1, n_retrieve = 0, countIn = 3, countOut = 0 \<rparr> =
      Some \<lparr> trace = [Retrieve 1, Writef [Finite 1, Finite (- 1)] 1, Usleep 10000],
             n_available = 4, n_retrieve = 1, countIn = 3, countOut = 1 \<rparr>"
    by (subst example_world_retrieved) (simp only: example_drain, simp add: clamp_sample_cases)
  from drain_loop_behaviour [of example_world
      "\<lparr> trace = [], n_available = 1, n_retrieve = 0, countIn = 3, countOut = 0 \<rparr>"
      "\<lparr> trace = [Retrieve 1, Writef [Finite 1, Finite (- 1)] 1, Usleep 10000],
         n_available = 4, n_retrieve = 1, countIn = 3, countOut = 1 \<rparr>"] d
  show ?thesis
    by auto
qed

subsection \<open>Written samples\<close>

lemma study_clamped: "is_study e \<Longrightarrow> written_clamped w e"
  by (cases e) (simp_all add: written_clamped_def)

lemma study_pass_clamped: "list_all (written_clamped w) (study_pass w v [])"
  using study_pass_all_study [of w v] by (simp add: list_all_iff study_clamped)

lemma before_drain_clamped: "list_all (written_clamped w) (trace (before_drain w v))"
proof -
  obtain rest where r: "trace (before_drain w v) = ctor_events w v @ study_pass w v [] @ rest"
      "list_all (written_clamped w) rest"
    using before_drain_trace [of w v] by blast
  have "list_all (written_clamped w) (ctor_events w v)"
    by (simp add: ctor_events_def written_clamped_def)
  with r study_pass_clamped [of w v] show ?thesis
    by simp
qed

text \<open>
  Claim C9, as stated: every sample the driver writes lies between -1.0 and 1.0. A NaN
  is neither greater than 1 nor less than -1, so the two comparisons leave it as it
  is: when the stretcher delivers NaN samples, the driver writes them.
\<close>

theorem written_samples_counterexample:
  "main example_cmdline nan_world =
     Some \<lparr> exit_code = 0,
            events = example_ctor @
              [Study example_block 3 True, Process example_block 3 True, Retrieve 1,
               Writef [NaN, NaN] 1, Usleep 10000] \<rparr> \<and>
   \<not> in_unit_range NaN"
  by (simp add: example_main_nan)

text \<open>
  Claim C9, amended. In the processing loop and in the drain loop alike, every block
  the driver writes holds, for each channel and index, the clamped retrieved sample:
  a sample greater than 1.0 (or positive infinity) becomes 1.0, a sample less than
  -1.0 (or negative infinity) becomes -1.0, any other number is written as it is, and
  so is a NaN. Every written sample that is not a NaN lies between -1.0 and 1.0.
\<close>

theorem written_samples_clamped:
  "list_all (written_clamped w) (trace (before_drain w v)) \<and>
   list_all (written_clamped w) (trace (drain_steps w d (before_drain w v))) \<and>
   (main cl w = Some out \<longrightarrow> list_all (written_clamped w) (events out)) \<and>
   clamp_sample (Finite x) = Finite (if 1 < x then 1 else if x < - 1 then - 1 else x) \<and>
   clamp_sample PlusInf = Finite 1 \<and> clamp_sample MinusInf = Finite (- 1) \<and>
   clamp_sample NaN = NaN \<and>
   (s \<noteq> NaN \<longrightarrow> in_unit_range (clamp_sample s))"
proof (intro conjI impI)
  show b: "list_all (written_clamped w) (trace (before_drain w v))"
    by (rule before_drain_clamped)
  obtain more where "trace (drain_steps w d (before_drain w v)) = trace (before_drain w v) @ more"
      "list_all (written_clamped w) more"
    using drain_steps_trace [of w d "before_drain w v"] by blast
  with b show "list_all (written_clamped w) (trace (drain_steps w d (before_drain w v)))"
    by simp
next
  assume m: "main cl w = Some out"
  show "list_all (written_clamped w) (events out)"
  proof (cases "startup cl w")
    case (Inl o1)
    with m have "events out = [PrintUsage] \<or> events out = [PrintOpenError False] \<or>
        events out = [PrintOpenError True]"
      by (auto simp: main_def startup_def Let_def split: if_splits)
    then show ?thesis
      by (auto simp: written_clamped_def)
  next
    case (Inr v')
    then obtain rest where r: "events out = ctor_events w v' @ study_pass w v' [] @ rest"
        "list_all (written_clamped w) rest"
      using main_trace [OF Inr m] by blast
    have "list_all (written_clamped w) (ctor_events w v')"
      by (simp add: ctor_events_def written_clamped_def)
    with r study_pass_clamped [of w v'] show ?thesis
      by simp
  qed
next
  show "in_unit_range (clamp_sample s)" if "s \<noteq> NaN"
    using that by (rule clamp_sample_range)
qed (simp_all add: clamp_sample_cases)

text \<open>The concrete run writes 1 and -1 for the retrieved samples 2 and -3.\<close>

theorem written_samples_clamped_witness:
  "main example_cmdline example_world =
     Some \<lparr> exit_code = 0,
            events = example_ctor @
              [Study example_block 3 True, Process example_block 3 True, Retrieve 1,
               Writef [Finite 1, Finite (- 1)] 1, Usleep 10000] \<rparr> \<and>
   written_clamped example_world (Writef [Finite 1, Finite (- 1)] 1) \<and>
   retrieved example_world 0 0 0 = Finite 2 \<and> retrieved example_world 0 1 0 = Finite (- 3) \<and>
   Finite 2 \<noteq> NaN \<and> in_unit_range (clamp_sample (Finite 2))"
proof -
  have r: "retrieved example_world 0 0 0 = Finite 2" "retrieved example_world 0 1 0 = Finite (- 3)"
    by (simp_all add: example_world_def)
  from written_samples_clamped [of example_world example_vars 0 example_cmdline
      "\<lparr> exit_code = 0,
         events = example_ctor @
           [Study example_block 3 True, Process example_block 3 True, Retrieve 1,
            Writef [Finite 1, Finite (- 1)] 1, Usleep 10000] \<rparr>" 2 "Finite 2"]
    example_main_clamped r
  show ?thesis
    by simp
qed

subsection \<open>A tempo of zero\<close>

lemma haveRatio_tempo: "Opt_T x \<in> set os \<Longrightarrow> haveRatio (parse_options os)"
proof -
  assume "Opt_T x \<in> set os"
  then have "list_ex time_or_tempo os"
    by (auto simp: list_ex_iff intro: bexI [of _ "Opt_T x"])
  then show ?thesis
    by (simp add: parse_options_def haveRatio_foldl)
qed

text \<open>
  Claim C10. \<open>--tempo 0\<close> leaves the time ratio as it was (nothing is divided) and
  still sets \<open>haveRatio\<close>: a command line with \<open>--tempo 0\<close>, two positional arguments and
  no help or unknown option passes the usage test, and the run does not end with the
  usage text and code 2.
\<close>

theorem tempo_zero_accepted:
  "ratio (parse_options (pre @ Opt_T 0 # post)) = ratio (parse_options (pre @ post)) \<and>
   ratio (switch_c v (Opt_T 0)) = ratio v \<and>
   haveRatio (switch_c v (Opt_T 0)) \<and>
   (Opt_T 0 \<in> set (options_given cl) \<and> Opt_h \<notin> set (options_given cl) \<and>
    Opt_other \<notin> set (options_given cl) \<and> length (positional cl) = 2 \<longrightarrow>
      \<not> usage_error (parse_options (options_given cl)) cl \<and>
      main cl w \<noteq> Some \<lparr> exit_code = 2, events = [PrintUsage] \<rparr>)"
proof (intro conjI impI)
  show "ratio (parse_options (pre @ Opt_T 0 # post)) = ratio (parse_options (pre @ post))"
    by (simp add: parse_options_def ratio_foldl)
  show "ratio (switch_c v (Opt_T 0)) = ratio v" by simp
  show "haveRatio (switch_c v (Opt_T 0))" by simp
next
  assume h: "Opt_T 0 \<in> set (options_given cl) \<and> Opt_h \<notin> set (options_given cl) \<and>
    Opt_other \<notin> set (options_given cl) \<and> length (positional cl) = 2"
  then have "haveRatio (parse_options (options_given cl))"
    using haveRatio_tempo [of 0 "options_given cl"] by simp
  with h show u: "\<not> usage_error (parse_options (options_given cl)) cl"
    by (simp add: usage_error_def help_parse)
  then show "main cl w \<noteq> Some \<lparr> exit_code = 2, events = [PrintUsage] \<rparr>"
    by (auto simp: main_def startup_def Let_def split: option.splits)
qed

text \<open>\<open>--tempo 0 in.wav out.wav\<close> is accepted, with ratio 1.\<close>

theorem tempo_zero_accepted_witness:
  "Opt_T 0 \<in> set (options_given tempo_zero_cmdline) \<and>
   Opt_h \<notin> set (options_given tempo_zero_cmdline) \<and>
   Opt_other \<notin> set (options_given tempo_zero_cmdline) \<and>
   length (positional tempo_zero_cmdline) = 2 \<and>
   \<not> usage_error (parse_options (options_given tempo_zero_cmdline)) tempo_zero_cmdline \<and>
   main tempo_zero_cmdline example_world \<noteq> Some \<lparr> exit_code = 2, events = [PrintUsage] \<rparr> \<and>
   ratio (parse_options (options_given tempo_zero_cmdline)) = 1"
proof -
  have h: "Opt_T 0 \<in> set (options_given tempo_zero_cmdline) \<and>
      Opt_h \<notin> set (options_given tempo_zero_cmdline) \<and>
      Opt_other \<notin> set (options_given tempo_zero_cmdline) \<and>
      length (positional tempo_zero_cmdline) = 2"
    by (simp add: tempo_zero_cmdline_def)
  have r: "ratio (parse_options []) = 1"
    by (simp add: parse_options_def init_vars_def)
  have o: "options_given tempo_zero_cmdline = [] @ Opt_T 0 # []"
    by (simp add: tempo_zero_cmdline_def)
  from tempo_zero_accepted [of "[]" "[]" init_vars tempo_zero_cmdline example_world] h r o
  show ?thesis
    by simp
qed

end
